theory Spec2Isabelle
  imports Main "HOL-Library.Multiset"
begin

section \<open>Data model\<close>

text \<open>
  A task as both layers see it (\<^verbatim>\<open>models/Todo.js\<close>, and the JSON objects held in
  \<^verbatim>\<open>state.todos\<close>). The field \<^verbatim>\<open>_id\<close> is called \<open>todo_id\<close>; an ObjectId is a natural
  number. Dates are instants in milliseconds. \<open>None\<close> is the JSON \<^verbatim>\<open>null\<close>: the schema
  lets \<^verbatim>\<open>dueDate\<close> be \<^verbatim>\<open>null\<close>, and an update can store \<^verbatim>\<open>null\<close> in each of the three
  enumerated fields (see \<open>validateEnum\<close> below). The title is always a string.
\<close>

record todo =
  todo_id :: nat
  title :: string
  status :: "string option"
  priority :: "string option"
  category :: "string option"
  dueDate :: "int option"
  createdAt :: int

subsection \<open>Strings\<close>

text \<open>
  JavaScript strings are modelled as HOL strings, whose characters are the 256 code
  points of Latin-1. On these, \<^verbatim>\<open>toLowerCase\<close> maps the capital letters A to Z (65 to
  90) and the accented capitals from 192 to 222, except the multiplication sign 215,
  to the code point 32 above, and leaves every other character as it is. \<^verbatim>\<open>trim\<close>
  removes the white space and line terminators of that range: TAB, LF, VT, FF, CR, SP
  and NBSP.
\<close>

definition toLowerChar :: "char \<Rightarrow> char" where
  "toLowerChar c =
     (let n = of_char c :: nat
      in if (65 \<le> n \<and> n \<le> 90) \<or> (192 \<le> n \<and> n \<le> 222 \<and> n \<noteq> 215)
         then char_of (n + 32) else c)"

definition toLowerCase :: "string \<Rightarrow> string" where
  "toLowerCase s = map toLowerChar s"

definition isWhiteSpace :: "char \<Rightarrow> bool" where
  "isWhiteSpace c = ((of_char c :: nat) \<in> {9, 10, 11, 12, 13, 32, 160})"

definition trim :: "string \<Rightarrow> string" where
  "trim s = rev (dropWhile isWhiteSpace (rev (dropWhile isWhiteSpace s)))"

fun startsWith :: "string \<Rightarrow> string \<Rightarrow> bool" where
  "startsWith s [] = True"
| "startsWith [] (c # q) = False"
| "startsWith (a # s) (c # q) = (a = c \<and> startsWith s q)"

text \<open>\<^verbatim>\<open>s.includes(q)\<close>: \<open>q\<close> occurs in \<open>s\<close> as a contiguous substring.\<close>

fun includes_str :: "string \<Rightarrow> string \<Rightarrow> bool" where
  "includes_str [] q = startsWith [] q"
| "includes_str (a # s) q = (startsWith (a # s) q \<or> includes_str s q)"

subsection \<open>JSON values of a request body\<close>

text \<open>
  A field of \<^verbatim>\<open>req.body\<close>. \<open>JUndefined\<close> is a field the body does not have. Objects are
  told apart by what the schema's string cast makes of them: \<open>JDoc i\<close> is an object
  whose property \<^verbatim>\<open>_id\<close> is the string \<open>i\<close>, and \<open>JObj\<close> is any other object or array.
\<close>

datatype jsval =
  JUndefined | JNull | JBool bool | JNum int | JStr string | JDoc string | JObj

fun truthy :: "jsval \<Rightarrow> bool" where
  "truthy JUndefined = False"
| "truthy JNull = False"
| "truthy (JBool b) = b"
| "truthy (JNum n) = (n \<noteq> 0)"
| "truthy (JStr s) = (s \<noteq> [])"
| "truthy (JDoc i) = True"
| "truthy JObj = True"

text \<open>
  The \<^verbatim>\<open>dueDate\<close> field of a body is absent, \<^verbatim>\<open>null\<close> or a string. The Date parser is
  not part of the repository, so a string is represented by what the schema's Date
  cast makes of it: the empty string (cast to \<^verbatim>\<open>null\<close>), a date string (with its
  instant), or a string that is no date (the cast fails).
\<close>

datatype due_field = DueAbsent | DueNull | DueEmpty | DueDate int | DueInvalid

record body =
  body_title :: jsval
  body_status :: jsval
  body_priority :: jsval
  body_category :: jsval
  body_dueDate :: due_field

section \<open>Array.prototype.sort\<close>

text \<open>
  The sort is the engine's, not the repository's; it is modelled by what ECMAScript
  requires of it. A comparison function returns a number; \<open>None\<close> is NaN.
\<close>

definition lt0 :: "int option \<Rightarrow> bool" where
  "lt0 v = (case v of None \<Rightarrow> False | Some n \<Rightarrow> n < 0)"

definition gt0 :: "int option \<Rightarrow> bool" where
  "gt0 v = (case v of None \<Rightarrow> False | Some n \<Rightarrow> 0 < n)"

text \<open>
  A consistent comparison function for the elements of an array (ECMAScript,
  \<^verbatim>\<open>Array.prototype.sort\<close>): it never returns NaN, every element equals itself, equality
  is symmetric and transitive, and \<open><\<close> and \<open>>\<close> are transitive.
\<close>

definition consistent :: "('a \<Rightarrow> 'a \<Rightarrow> int option) \<Rightarrow> 'a list \<Rightarrow> bool" where
  "consistent comparefn xs =
     ((\<forall>a\<in>set xs. \<forall>b\<in>set xs. comparefn a b \<noteq> None) \<and>
      (\<forall>a\<in>set xs. comparefn a a = Some 0) \<and>
      (\<forall>a\<in>set xs. \<forall>b\<in>set xs. comparefn a b = Some 0 \<longrightarrow> comparefn b a = Some 0) \<and>
      (\<forall>a\<in>set xs. \<forall>b\<in>set xs. \<forall>c\<in>set xs.
         comparefn a b = Some 0 \<and> comparefn b c = Some 0 \<longrightarrow> comparefn a c = Some 0) \<and>
      (\<forall>a\<in>set xs. \<forall>b\<in>set xs. \<forall>c\<in>set xs.
         lt0 (comparefn a b) \<and> lt0 (comparefn b c) \<longrightarrow> lt0 (comparefn a c)) \<and>
      (\<forall>a\<in>set xs. \<forall>b\<in>set xs. \<forall>c\<in>set xs.
         gt0 (comparefn a b) \<and> gt0 (comparefn b c) \<longrightarrow> gt0 (comparefn a c)))"

text \<open>
  For a consistent comparison function the result is determined: the elements in
  ascending order, those that compare equal in the order received (the sort is stable).
  That list is computed by inserting each element into the sorted prefix to its left,
  where it moves in front of its predecessor when \<^verbatim>\<open>comparefn(element, predecessor) < 0\<close>.
  The sorted prefix is held back to front (its last element is the head), so that the
  new element walks down the list while it moves.
\<close>

fun move_left :: "('a \<Rightarrow> 'a \<Rightarrow> bool) \<Rightarrow> 'a \<Rightarrow> 'a list \<Rightarrow> 'a list" where
  "move_left mv item [] = [item]"
| "move_left mv item (prev # rest) =
     (if mv prev item then prev # move_left mv item rest else item # prev # rest)"

definition insertion_sort :: "('a \<Rightarrow> 'a \<Rightarrow> bool) \<Rightarrow> 'a list \<Rightarrow> 'a list" where
  "insertion_sort mv xs = rev (foldl (\<lambda>acc item. move_left mv item acc) [] xs)"

definition stable_sort :: "('a \<Rightarrow> 'a \<Rightarrow> int option) \<Rightarrow> 'a list \<Rightarrow> 'a list" where
  "stable_sort comparefn xs = insertion_sort (\<lambda>prev item. lt0 (comparefn item prev)) xs"

text \<open>
  For a comparison function that is not consistent, ``the sort order is
  implementation-defined'': the result holds the same elements, in an order that the
  engine chooses. An engine is therefore a choice of a permutation for every
  comparison function and array; nothing else is known of it.
\<close>

typedef 'a engine =
  "{f :: ('a \<Rightarrow> 'a \<Rightarrow> int option) \<Rightarrow> 'a list \<Rightarrow> 'a list. \<forall>c xs. mset (f c xs) = mset xs}"
  morphisms implementation_defined Engine
  by (rule exI [of _ "\<lambda>c xs. xs"]) simp

setup_lifting type_definition_engine

text \<open>
  One engine, for examples: it runs the stable insertion on every comparison function,
  consistent or not.
\<close>

lift_definition insertion_engine :: "'a engine" is "\<lambda>comparefn xs. stable_sort comparefn xs"
proof -
  fix comparefn :: "'a \<Rightarrow> 'a \<Rightarrow> int option" and xs :: "'a list"
  let ?mv = "\<lambda>prev item. lt0 (comparefn item prev)"
  have step: "mset (move_left ?mv x acc) = add_mset x (mset acc)" for x acc
    by (induction acc) auto
  have "mset (foldl (\<lambda>acc item. move_left ?mv item acc) acc xs) = mset acc + mset xs" for acc
    by (induction xs arbitrary: acc) (simp_all add: step)
  then show "mset (stable_sort comparefn xs) = mset xs"
    by (simp add: stable_sort_def insertion_sort_def)
qed

definition array_sort :: "'a engine \<Rightarrow> ('a \<Rightarrow> 'a \<Rightarrow> int option) \<Rightarrow> 'a list \<Rightarrow> 'a list" where
  "array_sort eng comparefn xs =
     (if consistent comparefn xs then stable_sort comparefn xs
      else implementation_defined eng comparefn xs)"

section \<open>Client: state, filtering and sorting (app.js)\<close>

text \<open>
  The \<^verbatim>\<open>state\<close> object. \<open>undoTimeout\<close> is whether the snackbar timer is armed. Three
  fields record the effects on the presentation and on timers that the source
  performs by calls: \<open>toasts\<close> (every \<^verbatim>\<open>showToast(message, type)\<close>, in order, the
  message without its emoji), \<open>snackbar\<close> (the undo snackbar is shown) and
  \<open>clearTimers\<close> (the number of pending callbacks of \<^verbatim>\<open>hideUndoSnackbar\<close> that will
  empty \<^verbatim>\<open>state.deletedTodo\<close>).
\<close>

record state =
  todos :: "todo list"
  currentFilter :: string
  currentSort :: string
  searchQuery :: string
  deletedTodo :: "todo option"
  isLoading :: bool
  undoTimeout :: bool
  toasts :: "(string \<times> string) list"
  snackbar :: bool
  clearTimers :: nat

definition initial_state :: state where
  "initial_state =
     \<lparr>todos = [], currentFilter = ''all'', currentSort = ''newest'', searchQuery = [],
      deletedTodo = None, isLoading = False, undoTimeout = False, toasts = [],
      snackbar = False, clearTimers = 0\<rparr>"

text \<open>
  The three handlers of the controls set their field; the call of \<^verbatim>\<open>renderTodos\<close> that
  follows changes nothing of the state.
\<close>

definition handleFilterChange :: "string \<Rightarrow> state \<Rightarrow> state" where
  "handleFilterChange filter_name st = st\<lparr>currentFilter := filter_name\<rparr>"

definition handleSearch :: "string \<Rightarrow> state \<Rightarrow> state" where
  "handleSearch text st = st\<lparr>searchQuery := toLowerCase text\<rparr>"

definition handleSort :: "string \<Rightarrow> state \<Rightarrow> state" where
  "handleSort sortKey st = st\<lparr>currentSort := sortKey\<rparr>"

text \<open>
  \<^verbatim>\<open>priorityOrder[p]\<close>: a number for the three keys of the table, and \<^verbatim>\<open>undefined\<close>
  (\<open>None\<close>) for \<^verbatim>\<open>null\<close> and for any other string.
\<close>

definition priorityOrder :: "string option \<Rightarrow> int option" where
  "priorityOrder p =
     (if p = Some ''high'' then Some 3 else if p = Some ''medium'' then Some 2
      else if p = Some ''low'' then Some 1 else None)"

text \<open>
  The comparison function passed to \<^verbatim>\<open>filtered.sort\<close>. A priority outside the table
  makes the difference NaN.
\<close>

definition compareTodos :: "string \<Rightarrow> todo \<Rightarrow> todo \<Rightarrow> int option" where
  "compareTodos sortKey a b =
     (if sortKey = ''newest'' then Some (createdAt b - createdAt a)
      else if sortKey = ''oldest'' then Some (createdAt a - createdAt b)
      else if sortKey = ''priority'' then
        (case (priorityOrder (priority b), priorityOrder (priority a)) of
           (Some pb, Some pa) \<Rightarrow> Some (pb - pa)
         | _ \<Rightarrow> None)
      else if sortKey = ''dueDate'' then
        (case dueDate a of
           None \<Rightarrow> Some 1
         | Some da \<Rightarrow> (case dueDate b of None \<Rightarrow> Some (- 1) | Some db \<Rightarrow> Some (da - db)))
      else Some 0)"

text \<open>
  \<^verbatim>\<open>Array.prototype.filter\<close> with a callback that can throw: the elements are tested in
  order, and the first exception ends the call (\<open>None\<close>).
\<close>

fun filter_throwing :: "('a \<Rightarrow> bool option) \<Rightarrow> 'a list \<Rightarrow> 'a list option" where
  "filter_throwing p [] = Some []"
| "filter_throwing p (x # xs) =
     (case p x of
        None \<Rightarrow> None
      | Some keep \<Rightarrow>
          (case filter_throwing p xs of
             None \<Rightarrow> None
           | Some ys \<Rightarrow> Some (if keep then x # ys else ys)))"

text \<open>
  The callback of the search: \<^verbatim>\<open>todo.category.toLowerCase()\<close> is evaluated when the title
  does not contain the query, and throws a TypeError (\<open>None\<close>) when the category is
  \<^verbatim>\<open>null\<close>.
\<close>

definition searchCallback :: "string \<Rightarrow> todo \<Rightarrow> bool option" where
  "searchCallback query todo =
     (if includes_str (toLowerCase (title todo)) query then Some True
      else case category todo of
             None \<Rightarrow> None
           | Some c \<Rightarrow> Some (includes_str (toLowerCase c) query))"

text \<open>
  The body of \<^verbatim>\<open>getFilteredTodos\<close> up to the sort: the copy of the cache, the status
  filter when the filter is not \<^verbatim>\<open>all\<close>, the search when the query is not empty.
  \<open>None\<close> is a TypeError.
\<close>

definition filtered :: "state \<Rightarrow> todo list option" where
  "filtered st =
     (let byStatus =
            (if currentFilter st \<noteq> ''all''
             then filter (\<lambda>todo. status todo = Some (currentFilter st)) (todos st)
             else todos st)
      in if searchQuery st \<noteq> []
         then filter_throwing (searchCallback (searchQuery st)) byStatus
         else Some byStatus)"

definition getFilteredTodos :: "todo engine \<Rightarrow> state \<Rightarrow> todo list option" where
  "getFilteredTodos eng st =
     (case filtered st of
        None \<Rightarrow> None
      | Some xs \<Rightarrow> Some (array_sort eng (compareTodos (currentSort st)) xs))"

text \<open>
  The projection \<^verbatim>\<open>view(cache, filterStatus, searchText, sortKey)\<close>: the three controls
  are set through their handlers, then the list is computed.
\<close>

definition view ::
  "todo engine \<Rightarrow> todo list \<Rightarrow> string \<Rightarrow> string \<Rightarrow> string \<Rightarrow> todo list option" where
  "view eng cache filterStatus searchText sortKey =
     getFilteredTodos eng
       (handleSort sortKey (handleSearch searchText (handleFilterChange filterStatus
          (initial_state\<lparr>todos := cache\<rparr>))))"

text \<open>
  \<^verbatim>\<open>renderTodos\<close>, as far as it can fail: it calls \<^verbatim>\<open>getFilteredTodos\<close> and builds the
  HTML of every task of the list, where \<^verbatim>\<open>capitalize(todo.category)\<close> throws a TypeError
  when the category is \<^verbatim>\<open>null\<close>. The result is whether the call returns. The sort only
  permutes the list, so the list before the sort is used; the document itself is not
  modelled.
\<close>

definition renderTodos :: "state \<Rightarrow> bool" where
  "renderTodos st =
     (case filtered st of
        None \<Rightarrow> False
      | Some xs \<Rightarrow> list_all (\<lambda>todo. category todo \<noteq> None) xs)"

subsection \<open>Vocabulary of the view properties\<close>

text \<open>\<^verbatim>\<open>!t.dueDate\<close> is false: the task has a due date.\<close>

definition hasDue :: "todo \<Rightarrow> bool" where
  "hasDue t = (dueDate t \<noteq> None)"

text \<open>
  The specification's words for the search, written without the program's functions.
  Two characters are the same letter when they are equal or are the capital and the
  small form of one letter of Latin-1; \<open>s\<close> contains \<open>q\<close> when case is ignored if some
  stretch of \<open>s\<close> has the letters of \<open>q\<close>.
\<close>

definition capital_of :: "char \<Rightarrow> char \<Rightarrow> bool" where
  "capital_of u l =
     ((of_char l :: nat) = of_char u + 32 \<and>
      (of_char u :: nat) \<in> {65..90} \<union> {192..214} \<union> {216..222})"

definition same_letter :: "char \<Rightarrow> char \<Rightarrow> bool" where
  "same_letter a b = (a = b \<or> capital_of a b \<or> capital_of b a)"

fun ci_prefix :: "string \<Rightarrow> string \<Rightarrow> bool" where
  "ci_prefix s [] = True"
| "ci_prefix [] (c # q) = False"
| "ci_prefix (a # s) (c # q) = (same_letter a c \<and> ci_prefix s q)"

fun ci_contains :: "string \<Rightarrow> string \<Rightarrow> bool" where
  "ci_contains [] q = ci_prefix [] q"
| "ci_contains (a # s) q = (ci_prefix (a # s) q \<or> ci_contains s q)"

text \<open>
  A task passes the two filters of the specification: its status is the filter's
  unless the filter is \<^verbatim>\<open>all\<close>, and, when the search text is not empty, its title or
  its category contains the text when case is ignored.
\<close>

definition passesStatus :: "string \<Rightarrow> todo \<Rightarrow> bool" where
  "passesStatus filterStatus t = (filterStatus = ''all'' \<or> status t = Some filterStatus)"

definition passesSearch :: "string \<Rightarrow> todo \<Rightarrow> bool" where
  "passesSearch searchText t =
     (searchText = [] \<or> ci_contains (title t) searchText \<or>
      (case category t of None \<Rightarrow> False | Some c \<Rightarrow> ci_contains c searchText))"

text \<open>
  The search meets a task it cannot test: one that passes the status filter, whose
  title does not contain the text, and whose category is \<^verbatim>\<open>null\<close>.
\<close>

definition untestable :: "string \<Rightarrow> string \<Rightarrow> todo \<Rightarrow> bool" where
  "untestable filterStatus searchText t =
     (searchText \<noteq> [] \<and> passesStatus filterStatus t \<and>
      \<not> ci_contains (title t) searchText \<and> category t = None)"

section \<open>Server: schema and store (models/Todo.js)\<close>

definition statusEnum :: "string list" where
  "statusEnum = [''todo'', ''progress'', ''completed'']"

definition priorityEnum :: "string list" where
  "priorityEnum = [''low'', ''medium'', ''high'']"

definition categoryEnum :: "string list" where
  "categoryEnum = [''general'', ''work'', ''personal'', ''shopping'', ''health'', ''study'']"

text \<open>
  The collection: its documents in insertion order, and the next ObjectId the store
  will hand out (identifiers are never reused).
\<close>

record store =
  docs :: "todo list"
  next_id :: nat

text \<open>
  What a request meets outside the program: the clock (\<^verbatim>\<open>Date.now\<close>), whether the
  persistence call fails, and what the network does with the request.
\<close>

datatype net = Delivered | RequestLost | ResponseLost

record env =
  now :: int
  db_fault :: bool
  network :: net

datatype fault = ValidationError | CastError | StoreFault

text \<open>
  A path of type String with an \<^verbatim>\<open>enum\<close>. The value is first cast to a string, then
  validated:
  \<^item> \<^verbatim>\<open>null\<close> is left as it is by the cast and passes the \<^verbatim>\<open>enum\<close> validator: the
    path is set to \<^verbatim>\<open>null\<close>;
  \<^item> a string must be one of the listed words;
  \<^item> an object whose \<^verbatim>\<open>_id\<close> is a non-empty string is cast to that string, which
    must be one of the listed words;
  \<^item> no other object or array can be cast;
  \<^item> a boolean is cast to \<^verbatim>\<open>true\<close> or \<^verbatim>\<open>false\<close>, and a number to its decimal
    notation, which is none of the words of the three sets of this schema.
  The result is the value of the path.
\<close>

definition validateEnum :: "string list \<Rightarrow> jsval \<Rightarrow> fault + string option" where
  "validateEnum allowed v =
     (case v of
        JUndefined \<Rightarrow> Inr None
      | JNull \<Rightarrow> Inr None
      | JStr s \<Rightarrow> if s \<in> set allowed then Inr (Some s) else Inl ValidationError
      | JDoc i \<Rightarrow>
          if i = [] then Inl CastError
          else if i \<in> set allowed then Inr (Some i) else Inl ValidationError
      | JObj \<Rightarrow> Inl CastError
      | JBool b \<Rightarrow>
          if (if b then ''true'' else ''false'') \<in> set allowed
          then Inr (Some (if b then ''true'' else ''false'')) else Inl ValidationError
      | JNum n \<Rightarrow> Inl ValidationError)"

text \<open>An enum path of a new document: \<^verbatim>\<open>default\<close> applies when the value is undefined.\<close>

definition enumPath :: "string list \<Rightarrow> string \<Rightarrow> jsval \<Rightarrow> fault + string option" where
  "enumPath allowed dflt v =
     (if v = JUndefined then Inr (Some dflt) else validateEnum allowed v)"

text \<open>The title path: \<^verbatim>\<open>trim: true\<close>, then \<^verbatim>\<open>required: true\<close> rejects the empty string.\<close>

definition titlePath :: "string \<Rightarrow> fault + string" where
  "titlePath t = (if trim t = [] then Inl ValidationError else Inr (trim t))"

definition castDate :: "due_field \<Rightarrow> fault + int option" where
  "castDate d =
     (case d of
        DueAbsent \<Rightarrow> Inr None
      | DueNull \<Rightarrow> Inr None
      | DueEmpty \<Rightarrow> Inr None
      | DueDate i \<Rightarrow> Inr (Some i)
      | DueInvalid \<Rightarrow> Inl CastError)"

text \<open>The object given to \<^verbatim>\<open>new Todo(...)\<close>.\<close>

record new_todo =
  new_title :: string
  new_status :: jsval
  new_priority :: jsval
  new_category :: jsval
  new_dueDate :: due_field

text \<open>
  \<^verbatim>\<open>todo.save()\<close>: the document is validated against the schema; then it is inserted
  with a fresh \<^verbatim>\<open>_id\<close> and \<^verbatim>\<open>createdAt = Date.now()\<close>, unless the store fails.
\<close>

definition save :: "env \<Rightarrow> new_todo \<Rightarrow> store \<Rightarrow> fault + (todo \<times> store)" where
  "save e n s =
     (case titlePath (new_title n) of Inl f \<Rightarrow> Inl f | Inr t \<Rightarrow>
      case enumPath statusEnum ''todo'' (new_status n) of Inl f \<Rightarrow> Inl f | Inr st \<Rightarrow>
      case enumPath priorityEnum ''medium'' (new_priority n) of Inl f \<Rightarrow> Inl f | Inr pr \<Rightarrow>
      case enumPath categoryEnum ''general'' (new_category n) of Inl f \<Rightarrow> Inl f | Inr ca \<Rightarrow>
      case castDate (new_dueDate n) of Inl f \<Rightarrow> Inl f | Inr du \<Rightarrow>
      if db_fault e then Inl StoreFault
      else
        let saved = \<lparr>todo_id = next_id s, title = t, status = st, priority = pr,
                     category = ca, dueDate = du, createdAt = now e\<rparr>
        in Inr (saved, s\<lparr>docs := docs s @ [saved], next_id := Suc (next_id s)\<rparr>))"

text \<open>
  The \<^verbatim>\<open>updates\<close> object of the PUT handler; an absent key is \<open>None\<close>, \<open>JUndefined\<close> or
  \<open>DueAbsent\<close>.
\<close>

record updates =
  upd_title :: "string option"
  upd_status :: jsval
  upd_priority :: jsval
  upd_category :: jsval
  upd_dueDate :: due_field

text \<open>
  The update after casting and validation: for each path, the value to set if any
  (\<open>Some None\<close> sets the path to \<^verbatim>\<open>null\<close>).
\<close>

record patch =
  set_title :: "string option"
  set_status :: "string option option"
  set_priority :: "string option option"
  set_category :: "string option option"
  set_dueDate :: "int option option"

definition updEnum :: "string list \<Rightarrow> jsval \<Rightarrow> fault + string option option" where
  "updEnum allowed v =
     (if v = JUndefined then Inr None
      else case validateEnum allowed v of Inl f \<Rightarrow> Inl f | Inr x \<Rightarrow> Inr (Some x))"

definition updTitle :: "string option \<Rightarrow> fault + string option" where
  "updTitle v =
     (case v of
        None \<Rightarrow> Inr None
      | Some t \<Rightarrow> (case titlePath t of Inl f \<Rightarrow> Inl f | Inr x \<Rightarrow> Inr (Some x)))"

definition updDate :: "due_field \<Rightarrow> fault + int option option" where
  "updDate d =
     (if d = DueAbsent then Inr None
      else case castDate d of Inl f \<Rightarrow> Inl f | Inr x \<Rightarrow> Inr (Some x))"

text \<open>
  The update is cast, and the update validators (\<^verbatim>\<open>runValidators: true\<close>) run on the
  paths it sets.
\<close>

definition validateUpdates :: "updates \<Rightarrow> fault + patch" where
  "validateUpdates u =
     (case updTitle (upd_title u) of Inl f \<Rightarrow> Inl f | Inr t \<Rightarrow>
      case updEnum statusEnum (upd_status u) of Inl f \<Rightarrow> Inl f | Inr st \<Rightarrow>
      case updEnum priorityEnum (upd_priority u) of Inl f \<Rightarrow> Inl f | Inr pr \<Rightarrow>
      case updEnum categoryEnum (upd_category u) of Inl f \<Rightarrow> Inl f | Inr ca \<Rightarrow>
      case updDate (upd_dueDate u) of Inl f \<Rightarrow> Inl f | Inr du \<Rightarrow>
      Inr \<lparr>set_title = t, set_status = st, set_priority = pr, set_category = ca,
           set_dueDate = du\<rparr>)"

definition applyPatch :: "patch \<Rightarrow> todo \<Rightarrow> todo" where
  "applyPatch p t =
     t\<lparr>title := (case set_title p of None \<Rightarrow> title t | Some x \<Rightarrow> x),
       status := (case set_status p of None \<Rightarrow> status t | Some x \<Rightarrow> x),
       priority := (case set_priority p of None \<Rightarrow> priority t | Some x \<Rightarrow> x),
       category := (case set_category p of None \<Rightarrow> category t | Some x \<Rightarrow> x),
       dueDate := (case set_dueDate p of None \<Rightarrow> dueDate t | Some x \<Rightarrow> x)\<rparr>"

definition findById :: "nat \<Rightarrow> todo list \<Rightarrow> todo option" where
  "findById i ts = find (\<lambda>t. todo_id t = i) ts"

text \<open>The first document with the identifier is replaced, respectively removed.\<close>

fun replaceById :: "nat \<Rightarrow> todo \<Rightarrow> todo list \<Rightarrow> todo list" where
  "replaceById i new [] = []"
| "replaceById i new (t # ts) = (if todo_id t = i then new # ts else t # replaceById i new ts)"

fun removeById :: "nat \<Rightarrow> todo list \<Rightarrow> todo list" where
  "removeById i [] = []"
| "removeById i (t # ts) = (if todo_id t = i then ts else t # removeById i ts)"

text \<open>
  \<^verbatim>\<open>Todo.findByIdAndUpdate(id, updates, {new: true, runValidators: true})\<close>: casting and
  validation come before the store is asked; the result is the updated document, or
  \<^verbatim>\<open>null\<close> (\<open>None\<close>) when no document has the identifier.
\<close>

definition findByIdAndUpdate ::
  "env \<Rightarrow> nat \<Rightarrow> updates \<Rightarrow> store \<Rightarrow> fault + (todo option \<times> store)" where
  "findByIdAndUpdate e i u s =
     (case validateUpdates u of Inl f \<Rightarrow> Inl f | Inr p \<Rightarrow>
      if db_fault e then Inl StoreFault
      else case findById i (docs s) of
        None \<Rightarrow> Inr (None, s)
      | Some t \<Rightarrow>
          Inr (Some (applyPatch p t), s\<lparr>docs := replaceById i (applyPatch p t) (docs s)\<rparr>))"

definition findByIdAndDelete :: "env \<Rightarrow> nat \<Rightarrow> store \<Rightarrow> fault + (todo option \<times> store)" where
  "findByIdAndDelete e i s =
     (if db_fault e then Inl StoreFault
      else case findById i (docs s) of
        None \<Rightarrow> Inr (None, s)
      | Some t \<Rightarrow> Inr (Some t, s\<lparr>docs := removeById i (docs s)\<rparr>))"

definition deleteMany :: "env \<Rightarrow> store \<Rightarrow> fault + (nat \<times> store)" where
  "deleteMany e s =
     (if db_fault e then Inl StoreFault else Inr (length (docs s), s\<lparr>docs := []\<rparr>))"

section \<open>Server: request handlers (server.js)\<close>

text \<open>
  A response: \<^verbatim>\<open>res.status(c).json(v)\<close> on the success paths (\<^verbatim>\<open>res.json(v)\<close> is status
  200), \<^verbatim>\<open>res.status(c).json({error: m})\<close> on the others, where the handlers use the
  codes 400, 404 and 500 only.
\<close>

datatype errcode = E400 | E404 | E500

datatype 'a reply = Success nat 'a | Failure errcode string

fun code_of :: "errcode \<Rightarrow> nat" where
  "code_of E400 = 400"
| "code_of E404 = 404"
| "code_of E500 = 500"

fun status_of :: "'a reply \<Rightarrow> nat" where
  "status_of (Success c v) = c"
| "status_of (Failure ec m) = code_of ec"

text \<open>
  The path parameter \<^verbatim>\<open>:id\<close>: a string that \<^verbatim>\<open>mongoose.Types.ObjectId.isValid\<close>
  rejects, or a well-formed identifier.
\<close>

datatype id_param = BadId | ObjectId nat

text \<open>\<^verbatim>\<open>dueDate || null\<close>.\<close>

definition dueOrNull :: "due_field \<Rightarrow> due_field" where
  "dueOrNull d = (case d of DueDate i \<Rightarrow> DueDate i | DueInvalid \<Rightarrow> DueInvalid | _ \<Rightarrow> DueNull)"

text \<open>\<^verbatim>\<open>value || 'default'\<close>.\<close>

definition orDefault :: "jsval \<Rightarrow> string \<Rightarrow> jsval" where
  "orDefault v dflt = (if truthy v then v else JStr dflt)"

text \<open>
  \<^verbatim>\<open>app.post('/api/todos', ...)\<close>. A truthy title that is not a string has no \<^verbatim>\<open>trim\<close>
  method: the call throws a TypeError inside the \<^verbatim>\<open>try\<close> block, which answers 500 as
  for every other exception.
\<close>

definition post_todos :: "env \<Rightarrow> body \<Rightarrow> store \<Rightarrow> todo reply \<times> store" where
  "post_todos e b s =
     (if \<not> truthy (body_title b) then (Failure E400 ''Title is required'', s)
      else case body_title b of
        JStr t \<Rightarrow>
          if trim t = [] then (Failure E400 ''Title is required'', s)
          else
            (case save e \<lparr>new_title = trim t,
                          new_status = orDefault (body_status b) ''todo'',
                          new_priority = orDefault (body_priority b) ''medium'',
                          new_category = orDefault (body_category b) ''general'',
                          new_dueDate = dueOrNull (body_dueDate b)\<rparr> s of
               Inl f \<Rightarrow> (Failure E500 ''Failed to create todo'', s)
             | Inr (savedTodo, s') \<Rightarrow> (Success 201 savedTodo, s'))
      | _ \<Rightarrow> (Failure E500 ''Failed to create todo'', s))"

text \<open>
  The five assignments that build \<^verbatim>\<open>updates\<close>; \<open>None\<close> when \<^verbatim>\<open>req.body.title.trim()\<close>
  throws (the title is present and not a string).
\<close>

definition buildUpdates :: "body \<Rightarrow> updates option" where
  "buildUpdates b =
     (case body_title b of
        JUndefined \<Rightarrow>
          Some \<lparr>upd_title = None, upd_status = body_status b, upd_priority = body_priority b,
                upd_category = body_category b, upd_dueDate = body_dueDate b\<rparr>
      | JStr t \<Rightarrow>
          Some \<lparr>upd_title = Some (trim t), upd_status = body_status b,
                upd_priority = body_priority b, upd_category = body_category b,
                upd_dueDate = body_dueDate b\<rparr>
      | _ \<Rightarrow> None)"

text \<open>\<^verbatim>\<open>app.put('/api/todos/:id', ...)\<close>.\<close>

definition put_todo :: "env \<Rightarrow> id_param \<Rightarrow> body \<Rightarrow> store \<Rightarrow> todo reply \<times> store" where
  "put_todo e p b s =
     (case p of
        BadId \<Rightarrow> (Failure E400 ''Invalid todo ID'', s)
      | ObjectId i \<Rightarrow>
          (case buildUpdates b of
             None \<Rightarrow> (Failure E500 ''Failed to update todo'', s)
           | Some u \<Rightarrow>
               (case findByIdAndUpdate e i u s of
                  Inl f \<Rightarrow> (Failure E500 ''Failed to update todo'', s)
                | Inr (None, s') \<Rightarrow> (Failure E404 ''Todo not found'', s')
                | Inr (Some updatedTodo, s') \<Rightarrow> (Success 200 updatedTodo, s'))))"

text \<open>\<^verbatim>\<open>app.delete('/api/todos/:id', ...)\<close>; the reply carries the deleted document.\<close>

definition delete_todo :: "env \<Rightarrow> id_param \<Rightarrow> store \<Rightarrow> todo reply \<times> store" where
  "delete_todo e p s =
     (case p of
        BadId \<Rightarrow> (Failure E400 ''Invalid todo ID'', s)
      | ObjectId i \<Rightarrow>
          (case findByIdAndDelete e i s of
             Inl f \<Rightarrow> (Failure E500 ''Failed to delete todo'', s)
           | Inr (None, s') \<Rightarrow> (Failure E404 ''Todo not found'', s')
           | Inr (Some removed, s') \<Rightarrow> (Success 200 removed, s')))"

text \<open>\<^verbatim>\<open>app.delete('/api/todos', ...)\<close>; the reply carries \<^verbatim>\<open>deletedCount\<close>.\<close>

definition delete_todos :: "env \<Rightarrow> store \<Rightarrow> nat reply \<times> store" where
  "delete_todos e s =
     (case deleteMany e s of
        Inl f \<Rightarrow> (Failure E500 ''Failed to clear todos'', s)
      | Inr (n, s') \<Rightarrow> (Success 200 n, s'))"

section \<open>Client: API calls and mutations (app.js)\<close>

text \<open>
  The client and the server together, with the list of the API requests the client
  has issued. Each client function below runs from its request to the end of its
  continuation in one step: no other event is interleaved at the \<^verbatim>\<open>await\<close>.
\<close>

datatype api_call = POST_todos body | PUT_todo nat body | DELETE_todo nat | DELETE_todos

record world =
  client :: state
  server :: store
  requests :: "api_call list"

text \<open>
  What a client function throws: the rejection of \<^verbatim>\<open>fetch\<close>, the error that
  \<^verbatim>\<open>apiRequest\<close> makes of a response that is not ok, or the TypeError of a rendering.
\<close>

datatype thrown = NetworkError | HttpError nat | TypeError

datatype outcome = Returned | Threw thrown

text \<open>
  \<^verbatim>\<open>fetch\<close>: the promise rejects (\<open>None\<close>) when the request or its response is lost; a
  request whose response is lost has been handled by the server all the same.
\<close>

definition fetch ::
  "env \<Rightarrow> (store \<Rightarrow> 'a reply \<times> store) \<Rightarrow> store \<Rightarrow> 'a reply option \<times> store" where
  "fetch e handler s =
     (case network e of
        RequestLost \<Rightarrow> (None, s)
      | ResponseLost \<Rightarrow> (None, snd (handler s))
      | Delivered \<Rightarrow> (Some (fst (handler s)), snd (handler s)))"

text \<open>\<^verbatim>\<open>response.ok\<close>.\<close>

definition response_ok :: "'a reply \<Rightarrow> bool" where
  "response_ok r = (200 \<le> status_of r \<and> status_of r \<le> 299)"

text \<open>
  \<^verbatim>\<open>apiRequest\<close>: throws when \<^verbatim>\<open>fetch\<close> rejects or the response is not ok, and returns
  the JSON of the response otherwise. (An error reply is never ok, so the last branch
  is not taken.)
\<close>

definition apiRequest ::
  "env \<Rightarrow> (store \<Rightarrow> 'a reply \<times> store) \<Rightarrow> store \<Rightarrow> (thrown + 'a) \<times> store" where
  "apiRequest e handler s =
     (case fetch e handler s of
        (None, s') \<Rightarrow> (Inl NetworkError, s')
      | (Some r, s') \<Rightarrow>
          if \<not> response_ok r then (Inl (HttpError (status_of r)), s')
          else (case r of
                  Success c v \<Rightarrow> (Inr v, s')
                | Failure ec m \<Rightarrow> (Inl (HttpError (code_of ec)), s')))"

definition request ::
  "env \<Rightarrow> api_call \<Rightarrow> (store \<Rightarrow> 'a reply \<times> store) \<Rightarrow> world \<Rightarrow> (thrown + 'a) \<times> world" where
  "request e c handler w =
     (case apiRequest e handler (server w) of
        (r, s') \<Rightarrow> (r, w\<lparr>server := s', requests := requests w @ [c]\<rparr>))"

definition showToast :: "string \<Rightarrow> string \<Rightarrow> state \<Rightarrow> state" where
  "showToast message type st = st\<lparr>toasts := toasts st @ [(message, type)]\<rparr>"

text \<open>
  \<^verbatim>\<open>showUndoSnackbar\<close> replaces the snackbar timer by a new one. \<^verbatim>\<open>hideUndoSnackbar\<close>
  cancels the snackbar timer and schedules, 300 ms later, a callback that empties the
  slot; nothing ever cancels that callback.
\<close>

definition showUndoSnackbar :: "string \<Rightarrow> state \<Rightarrow> state" where
  "showUndoSnackbar message st = st\<lparr>snackbar := True, undoTimeout := True\<rparr>"

definition hideUndoSnackbar :: "state \<Rightarrow> state" where
  "hideUndoSnackbar st =
     st\<lparr>snackbar := False, undoTimeout := False, clearTimers := Suc (clearTimers st)\<rparr>"

text \<open>The two timer callbacks: the snackbar timer, and a pending clearing of the slot.\<close>

definition undoTimerFires :: "state \<Rightarrow> state" where
  "undoTimerFires st = (if undoTimeout st then hideUndoSnackbar st else st)"

definition clearTimerFires :: "state \<Rightarrow> state" where
  "clearTimerFires st =
     (if 0 < clearTimers st then st\<lparr>deletedTodo := None, clearTimers := clearTimers st - 1\<rparr>
      else st)"

text \<open>
  The four mutations. Each updates the cache after its request has succeeded and then
  calls \<^verbatim>\<open>renderTodos\<close>, all inside its \<^verbatim>\<open>try\<close> block: an exception of the rendering is
  caught like a failed request (the error toast, and the exception thrown again), with
  the cache already updated.
\<close>

definition createTodo :: "env \<Rightarrow> body \<Rightarrow> world \<Rightarrow> outcome \<times> world" where
  "createTodo e todoData w =
     (case request e (POST_todos todoData) (post_todos e todoData) w of
        (Inr newTodo, w') \<Rightarrow>
          (let st = (client w')\<lparr>todos := newTodo # todos (client w')\<rparr>
           in if renderTodos st
              then (Returned, w'\<lparr>client := showToast ''Task added successfully!'' ''success'' st\<rparr>)
              else (Threw TypeError, w'\<lparr>client := showToast ''Failed to add task'' ''error'' st\<rparr>))
      | (Inl err, w') \<Rightarrow>
          (Threw err, w'\<lparr>client := showToast ''Failed to add task'' ''error'' (client w')\<rparr>))"

definition updateTodo :: "env \<Rightarrow> nat \<Rightarrow> body \<Rightarrow> world \<Rightarrow> outcome \<times> world" where
  "updateTodo e i upd w =
     (case request e (PUT_todo i upd) (put_todo e (ObjectId i) upd) w of
        (Inr updatedTodo, w') \<Rightarrow>
          (if findById i (todos (client w')) \<noteq> None
           then
             (let st = (client w')\<lparr>todos := replaceById i updatedTodo (todos (client w'))\<rparr>
              in if renderTodos st then (Returned, w'\<lparr>client := st\<rparr>)
                 else (Threw TypeError,
                       w'\<lparr>client := showToast ''Failed to update task'' ''error'' st\<rparr>))
           else (Returned, w'))
      | (Inl err, w') \<Rightarrow>
          (Threw err, w'\<lparr>client := showToast ''Failed to update task'' ''error'' (client w')\<rparr>))"

definition deleteTodo :: "env \<Rightarrow> nat \<Rightarrow> world \<Rightarrow> outcome \<times> world" where
  "deleteTodo e i w =
     (case request e (DELETE_todo i) (delete_todo e (ObjectId i)) w of
        (Inr gone, w') \<Rightarrow>
          (case findById i (todos (client w')) of
             None \<Rightarrow> (Returned, w')
           | Some cached \<Rightarrow>
               (let st = (client w')\<lparr>deletedTodo := Some cached,
                                     todos := removeById i (todos (client w'))\<rparr>
                in if renderTodos st
                   then (Returned, w'\<lparr>client := showUndoSnackbar ''Task deleted'' st\<rparr>)
                   else (Threw TypeError,
                         w'\<lparr>client := showToast ''Failed to delete task'' ''error'' st\<rparr>)))
      | (Inl err, w') \<Rightarrow>
          (Threw err, w'\<lparr>client := showToast ''Failed to delete task'' ''error'' (client w')\<rparr>))"

definition clearAllTodos :: "env \<Rightarrow> world \<Rightarrow> outcome \<times> world" where
  "clearAllTodos e w =
     (case request e DELETE_todos (delete_todos e) w of
        (Inr n, w') \<Rightarrow>
          (let st = (client w')\<lparr>todos := []\<rparr>
           in if renderTodos st
              then (Returned, w'\<lparr>client := showToast ''All tasks cleared!'' ''success'' st\<rparr>)
              else (Threw TypeError, w'\<lparr>client := showToast ''Failed to clear tasks'' ''error'' st\<rparr>))
      | (Inl err, w') \<Rightarrow>
          (Threw err, w'\<lparr>client := showToast ''Failed to clear tasks'' ''error'' (client w')\<rparr>))"

text \<open>
  The \<^verbatim>\<open>todoData\<close> object of \<^verbatim>\<open>handleUndo\<close>, as the JSON body it is sent as: a field that
  is \<^verbatim>\<open>null\<close> in the slot is sent as \<^verbatim>\<open>null\<close>.
\<close>

definition jsonField :: "string option \<Rightarrow> jsval" where
  "jsonField v = (case v of None \<Rightarrow> JNull | Some s \<Rightarrow> JStr s)"

definition undoData :: "todo \<Rightarrow> body" where
  "undoData d =
     \<lparr>body_title = JStr (title d), body_status = jsonField (status d),
      body_priority = jsonField (priority d), body_category = jsonField (category d),
      body_dueDate = (case dueDate d of None \<Rightarrow> DueNull | Some i \<Rightarrow> DueDate i)\<rparr>"

definition handleUndo :: "env \<Rightarrow> world \<Rightarrow> world" where
  "handleUndo e w =
     (case deletedTodo (client w) of
        None \<Rightarrow> w
      | Some d \<Rightarrow>
          (case createTodo e (undoData d) w of
             (Returned, w') \<Rightarrow>
               w'\<lparr>client := showToast ''Task restored!'' ''success''
                      (hideUndoSnackbar ((client w')\<lparr>deletedTodo := None\<rparr>))\<rparr>
           | (Threw err, w') \<Rightarrow> w'))"

definition handleDeleteTodo :: "env \<Rightarrow> nat \<Rightarrow> world \<Rightarrow> world" where
  "handleDeleteTodo e i w = snd (deleteTodo e i w)"

text \<open>
  What can happen between a delete and the undo that follows it, while the snackbar is
  shown and without another delete: a task is added, a task is updated, all tasks are
  cleared, a control of the view is changed, or a pending callback of an earlier
  \<^verbatim>\<open>hideUndoSnackbar\<close> runs.
\<close>

datatype event =
  AddTodo env body
| UpdateTodo env nat body
| ClearAll env
| FilterChange string
| Search string
| Sort string
| ClearTimer

fun step :: "event \<Rightarrow> world \<Rightarrow> world" where
  "step (AddTodo e b) w = snd (createTodo e b w)"
| "step (UpdateTodo e i b) w = snd (updateTodo e i b w)"
| "step (ClearAll e) w = snd (clearAllTodos e w)"
| "step (FilterChange f) w = w\<lparr>client := handleFilterChange f (client w)\<rparr>"
| "step (Search q) w = w\<lparr>client := handleSearch q (client w)\<rparr>"
| "step (Sort k) w = w\<lparr>client := handleSort k (client w)\<rparr>"
| "step ClearTimer w = w\<lparr>client := clearTimerFires (client w)\<rparr>"

definition run :: "event list \<Rightarrow> world \<Rightarrow> world" where
  "run evs w = foldl (\<lambda>w' ev. step ev w') w evs"

section \<open>Vocabulary of the request properties and example data\<close>

text \<open>The body \<^verbatim>\<open>{}\<close>.\<close>

definition empty_body :: body where
  "empty_body = \<lparr>body_title = JUndefined, body_status = JUndefined, body_priority = JUndefined,
                 body_category = JUndefined, body_dueDate = DueAbsent\<rparr>"

text \<open>
  A body assigns a field a value outside the enumerated set: the value is present and
  is not one of the listed strings. Two kinds of such values are told apart: \<^verbatim>\<open>null\<close>
  and an object whose \<^verbatim>\<open>_id\<close> is one of the listed strings are \<open>tolerated\<close> values.
\<close>

definition outside :: "string list \<Rightarrow> jsval \<Rightarrow> bool" where
  "outside allowed v = (v \<noteq> JUndefined \<and> v \<notin> JStr ` set allowed)"

definition tolerated :: "string list \<Rightarrow> jsval \<Rightarrow> bool" where
  "tolerated allowed v = (v = JNull \<or> v \<in> JDoc ` set allowed)"

text \<open>The word that a string, or an object through its \<^verbatim>\<open>_id\<close>, supplies.\<close>

definition supplied_word :: "jsval \<Rightarrow> string option" where
  "supplied_word v = (case v of JStr x \<Rightarrow> Some x | JDoc x \<Rightarrow> Some x | _ \<Rightarrow> None)"

text \<open>
  A task as the create handler stores it: a trimmed, non-empty title and an enumerated
  value in each of the three fields.
\<close>

definition well_formed :: "todo \<Rightarrow> bool" where
  "well_formed t =
     (trim (title t) = title t \<and> title t \<noteq> [] \<and> status t \<in> Some ` set statusEnum \<and>
      priority t \<in> Some ` set priorityEnum \<and> category t \<in> Some ` set categoryEnum)"

text \<open>Every stored task carries an identifier that the store has handed out.\<close>

definition ids_issued :: "store \<Rightarrow> bool" where
  "ids_issued s = (\<forall>t\<in>set (docs s). todo_id t < next_id s)"

text \<open>
  The tasks of the specification's example, a third one with a due date, and a fourth
  one whose category an update has set to \<^verbatim>\<open>null\<close>.
\<close>

definition ex_milk :: todo where
  "ex_milk = \<lparr>todo_id = 1, title = ''Buy milk'', status = Some ''todo'',
              priority = Some ''medium'', category = Some ''shopping'', dueDate = None,
              createdAt = 1000\<rparr>"

definition ex_report :: todo where
  "ex_report = \<lparr>todo_id = 2, title = ''Write report'', status = Some ''todo'',
                priority = Some ''high'', category = Some ''work'', dueDate = None,
                createdAt = 2000\<rparr>"

definition ex_gym :: todo where
  "ex_gym = \<lparr>todo_id = 3, title = ''Gym'', status = Some ''completed'',
             priority = Some ''low'', category = Some ''health'', dueDate = Some 5000,
             createdAt = 3000\<rparr>"

definition ex_note :: todo where
  "ex_note = \<lparr>todo_id = 5, title = ''Note'', status = Some ''todo'',
              priority = Some ''low'', category = None, dueDate = None, createdAt = 4000\<rparr>"

definition ex_state :: state where
  "ex_state = initial_state\<lparr>todos := [ex_milk, ex_report, ex_gym], currentSort := ''dueDate''\<rparr>"

definition ex_env :: env where
  "ex_env = \<lparr>now = 7000, db_fault = False, network = Delivered\<rparr>"

definition ex_store :: store where
  "ex_store = \<lparr>docs = [ex_milk], next_id = 4\<rparr>"

definition ex_world :: world where
  "ex_world = \<lparr>client = initial_state\<lparr>todos := [ex_report, ex_milk]\<rparr>,
               server = \<lparr>docs = [ex_milk, ex_report], next_id = 4\<rparr>, requests = []\<rparr>"

section \<open>The sort\<close>

lemma mset_move_left: "mset (move_left mv x acc) = add_mset x (mset acc)"
  by (induction acc) auto

lemma set_move_left: "set (move_left mv x acc) = insert x (set acc)"
  by (induction acc) auto

lemma insertion_sort_Nil: "insertion_sort mv [] = []"
  by (simp add: insertion_sort_def)

lemma insertion_sort_snoc:
  "insertion_sort mv (xs @ [x]) = rev (move_left mv x (rev (insertion_sort mv xs)))"
  by (simp add: insertion_sort_def)

lemma mset_insertion_sort: "mset (insertion_sort mv xs) = mset xs"
  by (induction xs rule: rev_induct) (simp_all add: insertion_sort_snoc mset_move_left insertion_sort_Nil)

lemma set_insertion_sort: "set (insertion_sort mv xs) = set xs"
  using mset_insertion_sort [of mv xs] by (metis set_mset_mset)

lemma filter_move_left:
  "(Q x \<Longrightarrow> \<forall>y\<in>set acc. mv y x \<longrightarrow> \<not> Q y) \<Longrightarrow>
   filter Q (move_left mv x acc) = (if Q x then x # filter Q acc else filter Q acc)"
  by (induction acc) auto

lemma sorted_move_left:
  fixes f :: "'a \<Rightarrow> 'k :: linorder"
  assumes "sorted_wrt (\<lambda>a b. f b \<le> f a) acc"
    and "\<forall>y\<in>set acc. mv y x \<longleftrightarrow> f x < f y"
  shows "sorted_wrt (\<lambda>a b. f b \<le> f a) (move_left mv x acc)"
  using assms by (induction acc) (auto simp: set_move_left)

lemma move_left_pass:
  "\<forall>y\<in>set us. mv y x \<Longrightarrow> move_left mv x (us @ ds) = us @ move_left mv x ds"
  by (induction us) auto

lemma move_left_stop:
  "\<forall>y\<in>set ds. \<not> mv y x \<Longrightarrow> move_left mv x ds = x # ds"
  by (cases ds) auto

text \<open>
  When the test compares a key, the insertion is the stable sort by that key.
\<close>

lemma insertion_sort_is_sort_key:
  fixes f :: "'a \<Rightarrow> 'k :: linorder"
  assumes "\<forall>a\<in>set xs. \<forall>b\<in>set xs. mv b a \<longleftrightarrow> f a < f b"
  shows "insertion_sort mv xs = sort_key f xs"
proof -
  have "sorted (map f (insertion_sort mv xs)) \<and>
        (\<forall>k. filter (\<lambda>t. k = f t) (insertion_sort mv xs) = filter (\<lambda>t. k = f t) xs)"
    using assms
  proof (induction xs rule: rev_induct)
    case Nil
    then show ?case by (simp add: insertion_sort_Nil)
  next
    case (snoc x xs)
    let ?acc = "rev (insertion_sort mv xs)"
    have ih: "sorted (map f (insertion_sort mv xs))"
      "\<And>k. filter (\<lambda>t. k = f t) (insertion_sort mv xs) = filter (\<lambda>t. k = f t) xs"
      using snoc by auto
    have mv: "\<forall>y\<in>set ?acc. mv y x \<longleftrightarrow> f x < f y"
      using snoc.prems by (auto simp: set_insertion_sort)
    have desc: "sorted_wrt (\<lambda>a b. f b \<le> f a) ?acc"
      using ih(1) by (simp add: sorted_wrt_rev sorted_map)
    have "sorted_wrt (\<lambda>a b. f b \<le> f a) (move_left mv x ?acc)"
      using desc mv by (rule sorted_move_left [where f = f])
    then have s: "sorted (map f (insertion_sort mv (xs @ [x])))"
      by (simp add: insertion_sort_snoc sorted_map sorted_wrt_rev)
    have st: "filter (\<lambda>t. k = f t) (insertion_sort mv (xs @ [x])) = filter (\<lambda>t. k = f t) (xs @ [x])" for k
    proof -
      have "filter (\<lambda>t. k = f t) (move_left mv x ?acc) =
            (if k = f x then x # filter (\<lambda>t. k = f t) ?acc else filter (\<lambda>t. k = f t) ?acc)"
        by (rule filter_move_left) (use mv in auto)
      then show ?thesis
        by (simp add: insertion_sort_snoc rev_filter [symmetric] ih(2))
    qed
    show ?case using s st by blast
  qed
  then show ?thesis
    by (intro properties_for_sort_key [symmetric]) (auto simp: mset_insertion_sort)
qed

lemma consistent_facts:
  assumes "consistent comparefn xs" and "a \<in> set xs" and "b \<in> set xs"
  shows "lt0 (comparefn a b) \<or> comparefn a b = Some 0 \<or> gt0 (comparefn a b)"
    and "comparefn a a = Some 0"
    and "comparefn a b = Some 0 \<Longrightarrow> comparefn b a = Some 0"
    and "\<And>c. c \<in> set xs \<Longrightarrow> comparefn a b = Some 0 \<Longrightarrow> comparefn b c = Some 0 \<Longrightarrow>
           comparefn a c = Some 0"
    and "\<And>c. c \<in> set xs \<Longrightarrow> lt0 (comparefn a b) \<Longrightarrow> lt0 (comparefn b c) \<Longrightarrow>
           lt0 (comparefn a c)"
    and "\<And>c. c \<in> set xs \<Longrightarrow> gt0 (comparefn a b) \<Longrightarrow> gt0 (comparefn b c) \<Longrightarrow>
           gt0 (comparefn a c)"
proof -
  have "comparefn a b \<noteq> None"
    using assms unfolding consistent_def by blast
  then show "lt0 (comparefn a b) \<or> comparefn a b = Some 0 \<or> gt0 (comparefn a b)"
    by (auto simp: lt0_def gt0_def)
  show "comparefn a a = Some 0"
    using assms unfolding consistent_def by blast
  show "comparefn a b = Some 0 \<Longrightarrow> comparefn b a = Some 0"
    using assms unfolding consistent_def by blast
  show "\<And>c. c \<in> set xs \<Longrightarrow> comparefn a b = Some 0 \<Longrightarrow> comparefn b c = Some 0 \<Longrightarrow>
           comparefn a c = Some 0"
    using assms unfolding consistent_def by blast
  show "\<And>c. c \<in> set xs \<Longrightarrow> lt0 (comparefn a b) \<Longrightarrow> lt0 (comparefn b c) \<Longrightarrow>
           lt0 (comparefn a c)"
    using assms unfolding consistent_def by blast
  show "\<And>c. c \<in> set xs \<Longrightarrow> gt0 (comparefn a b) \<Longrightarrow> gt0 (comparefn b c) \<Longrightarrow>
           gt0 (comparefn a c)"
    using assms unfolding consistent_def by blast
qed

lemma lt0_excl: "lt0 v \<Longrightarrow> v \<noteq> Some 0 \<and> \<not> gt0 v"
  by (auto simp: lt0_def gt0_def split: option.splits)

lemma gt0_excl: "gt0 v \<Longrightarrow> v \<noteq> Some 0 \<and> \<not> lt0 v"
  by (auto simp: lt0_def gt0_def split: option.splits)

lemma consistent_asym:
  assumes "consistent comparefn xs" and "a \<in> set xs" and "b \<in> set xs"
    and "lt0 (comparefn a b)"
  shows "gt0 (comparefn b a)"
proof -
  note f = consistent_facts [OF assms(1)]
  have "\<not> lt0 (comparefn b a)"
  proof
    assume "lt0 (comparefn b a)"
    then have "lt0 (comparefn a a)" using f(5) [OF assms(2,3,2)] assms(4) by blast
    then show False using f(2) [OF assms(2,2)] lt0_excl by blast
  qed
  moreover have "comparefn b a \<noteq> Some 0"
  proof
    assume "comparefn b a = Some 0"
    then have "comparefn a b = Some 0" using f(3) [OF assms(3,2)] by blast
    then show False using assms(4) lt0_excl by blast
  qed
  ultimately show ?thesis
    using f(1) [OF assms(3,2)] by blast
qed

lemma consistent_asym':
  assumes "consistent comparefn xs" and "a \<in> set xs" and "b \<in> set xs"
    and "gt0 (comparefn a b)"
  shows "lt0 (comparefn b a)"
proof -
  note f = consistent_facts [OF assms(1)]
  have "\<not> gt0 (comparefn b a)"
  proof
    assume "gt0 (comparefn b a)"
    then have "gt0 (comparefn a a)" using f(6) [OF assms(2,3,2)] assms(4) by blast
    then show False using f(2) [OF assms(2,2)] gt0_excl by blast
  qed
  moreover have "comparefn b a \<noteq> Some 0"
  proof
    assume "comparefn b a = Some 0"
    then have "comparefn a b = Some 0" using f(3) [OF assms(3,2)] by blast
    then show False using assms(4) gt0_excl by blast
  qed
  ultimately show ?thesis
    using f(1) [OF assms(3,2)] by blast
qed

lemma consistent_neg_trans:
  assumes "consistent comparefn xs" and "a \<in> set xs" and "b \<in> set xs" and "d \<in> set xs"
    and "\<not> lt0 (comparefn a b)" and "\<not> lt0 (comparefn b d)"
  shows "\<not> lt0 (comparefn a d)"
proof
  assume l: "lt0 (comparefn a d)"
  note f = consistent_facts [OF assms(1)]
  have da: "gt0 (comparefn d a)"
    using consistent_asym [OF assms(1,2,4) l] .
  from f(1) [OF assms(2,3)] assms(5) consider "comparefn a b = Some 0" | "gt0 (comparefn a b)"
    by blast
  then show False
  proof cases
    case 1
    from f(1) [OF assms(3,4)] assms(6) consider "comparefn b d = Some 0" | "gt0 (comparefn b d)"
      by blast
    then show False
    proof cases
      case 1
      with \<open>comparefn a b = Some 0\<close> have "comparefn a d = Some 0"
        using f(4) [OF assms(2,3,4)] by blast
      then show False using l lt0_excl by blast
    next
      case 2
      then have "gt0 (comparefn b a)"
        using f(6) [OF assms(3,4,2)] da by blast
      moreover have "comparefn b a = Some 0"
        using f(3) [OF assms(2,3)] \<open>comparefn a b = Some 0\<close> by blast
      ultimately show False using gt0_excl by blast
    qed
  next
    case 2
    then have "gt0 (comparefn d b)"
      using f(6) [OF assms(4,2,3)] da by blast
    then have "lt0 (comparefn b d)"
      using consistent_asym' [OF assms(1,4,3)] by blast
    then show False using assms(6) by blast
  qed
qed

lemma sorted_move_left_consistent:
  assumes "consistent comparefn xs" and "x \<in> set xs" and "set acc \<subseteq> set xs"
    and "sorted_wrt (\<lambda>a b. \<not> lt0 (comparefn a b)) acc"
  shows "sorted_wrt (\<lambda>a b. \<not> lt0 (comparefn a b))
           (move_left (\<lambda>prev item. lt0 (comparefn item prev)) x acc)"
  using assms(3,4)
proof (induction acc)
  case Nil
  then show ?case by simp
next
  case (Cons p rest)
  have p: "p \<in> set xs" and rest: "set rest \<subseteq> set xs"
    using Cons.prems(1) by simp_all
  have srest: "sorted_wrt (\<lambda>a b. \<not> lt0 (comparefn a b)) rest"
    and prest: "\<forall>y\<in>set rest. \<not> lt0 (comparefn p y)"
    using Cons.prems(2) by simp_all
  show ?case
  proof (cases "lt0 (comparefn x p)")
    case True
    have "\<not> lt0 (comparefn p x)"
      using consistent_asym [OF assms(1,2) p True] gt0_excl by blast
    then show ?thesis
      using True prest Cons.IH [OF rest srest] by (simp add: set_move_left)
  next
    case False
    have "\<not> lt0 (comparefn x y)" if "y \<in> set rest" for y
      using consistent_neg_trans [OF assms(1,2) p _ False] prest rest that by blast
    then show ?thesis
      using False Cons.prems(2) by simp
  qed
qed

text \<open>
  For a consistent comparison function, the list that \<open>stable_sort\<close> returns is what
  ECMAScript requires: it holds the elements of the array, no element is less than an
  element before it, and the elements that compare equal to a given one are in the
  order received.
\<close>

lemma stable_sort_contract:
  assumes "consistent comparefn xs"
  shows "mset (stable_sort comparefn xs) = mset xs \<and>
         sorted_wrt (\<lambda>a b. \<not> lt0 (comparefn b a)) (stable_sort comparefn xs) \<and>
         (\<forall>k\<in>set xs. filter (\<lambda>t. comparefn t k = Some 0) (stable_sort comparefn xs) =
                      filter (\<lambda>t. comparefn t k = Some 0) xs)"
proof -
  let ?mv = "\<lambda>prev item. lt0 (comparefn item prev)"
  have "set ys \<subseteq> set xs \<Longrightarrow>
        sorted_wrt (\<lambda>a b. \<not> lt0 (comparefn a b)) (rev (insertion_sort ?mv ys)) \<and>
        (\<forall>k\<in>set xs. filter (\<lambda>t. comparefn t k = Some 0) (insertion_sort ?mv ys) =
                     filter (\<lambda>t. comparefn t k = Some 0) ys)" for ys
  proof (induction ys rule: rev_induct)
    case Nil
    then show ?case by (simp add: insertion_sort_Nil)
  next
    case (snoc x ys)
    let ?acc = "rev (insertion_sort ?mv ys)"
    have x: "x \<in> set xs" and ys: "set ys \<subseteq> set xs"
      using snoc.prems by simp_all
    have acc: "set ?acc \<subseteq> set xs"
      using ys by (simp add: set_insertion_sort)
    note ih = snoc.IH [OF ys]
    have s: "sorted_wrt (\<lambda>a b. \<not> lt0 (comparefn a b)) (move_left ?mv x ?acc)"
      using sorted_move_left_consistent [OF assms x acc] ih by blast
    have st: "filter (\<lambda>t. comparefn t k = Some 0) (insertion_sort ?mv (ys @ [x])) =
              filter (\<lambda>t. comparefn t k = Some 0) (ys @ [x])" if k: "k \<in> set xs" for k
    proof -
      note f = consistent_facts [OF assms]
      have "\<forall>y\<in>set ?acc. lt0 (comparefn x y) \<longrightarrow> comparefn y k \<noteq> Some 0"
        if xk: "comparefn x k = Some 0"
      proof (intro ballI impI notI)
        fix y
        assume y: "y \<in> set ?acc" and l: "lt0 (comparefn x y)" and yk: "comparefn y k = Some 0"
        have y': "y \<in> set xs" using y acc by blast
        have "comparefn k y = Some 0" using f(3) [OF y' k] yk by blast
        then have "comparefn x y = Some 0" using f(4) [OF x k y'] xk by blast
        then show False using l lt0_excl by blast
      qed
      then have "filter (\<lambda>t. comparefn t k = Some 0) (move_left ?mv x ?acc) =
            (if comparefn x k = Some 0 then x # filter (\<lambda>t. comparefn t k = Some 0) ?acc
             else filter (\<lambda>t. comparefn t k = Some 0) ?acc)"
        by (intro filter_move_left) simp
      then show ?thesis
        using ih k by (simp add: insertion_sort_snoc rev_filter [symmetric])
    qed
    show ?case
      using s st by (simp add: insertion_sort_snoc)
  qed
  from this [OF subset_refl] show ?thesis
    by (simp add: stable_sort_def mset_insertion_sort sorted_wrt_rev)
qed

text \<open>
  A comparison function that is the difference of a key is consistent, and the sort is
  then the stable sort by that key, whatever the engine.
\<close>

lemma consistent_key:
  fixes f :: "'a \<Rightarrow> int"
  assumes "\<forall>a\<in>set xs. \<forall>b\<in>set xs. comparefn a b = Some (f a - f b)"
  shows "consistent comparefn xs"
  unfolding consistent_def lt0_def gt0_def using assms by auto

lemma stable_sort_key:
  fixes f :: "'a \<Rightarrow> int"
  assumes "\<forall>a\<in>set xs. \<forall>b\<in>set xs. comparefn a b = Some (f a - f b)"
  shows "stable_sort comparefn xs = sort_key f xs"
  unfolding stable_sort_def
  by (rule insertion_sort_is_sort_key) (use assms in \<open>auto simp: lt0_def\<close>)

lemma array_sort_key:
  fixes f :: "'a \<Rightarrow> int"
  assumes "\<forall>a\<in>set xs. \<forall>b\<in>set xs. comparefn a b = Some (f a - f b)"
  shows "array_sort eng comparefn xs = sort_key f xs"
  using consistent_key [OF assms] stable_sort_key [OF assms] by (simp add: array_sort_def)

lemma mset_implementation_defined: "mset (implementation_defined eng c xs) = mset xs"
  using implementation_defined [of eng] by simp

lemma mset_array_sort: "mset (array_sort eng comparefn xs) = mset xs"
  by (simp add: array_sort_def stable_sort_def mset_insertion_sort mset_implementation_defined)

text \<open>
  The comparison function of the key \<^verbatim>\<open>dueDate\<close>. For a task without a due date it
  answers 1 whatever the other task is, also for the task itself.
\<close>

lemma compare_undated: "\<not> hasDue a \<Longrightarrow> compareTodos ''dueDate'' a b = Some 1"
  by (simp add: compareTodos_def hasDue_def)

lemma compare_dated:
  "hasDue a \<Longrightarrow> hasDue b \<Longrightarrow>
   compareTodos ''dueDate'' a b = Some (the (dueDate a) - the (dueDate b))"
  by (auto simp: compareTodos_def hasDue_def)

lemma due_not_consistent:
  assumes "a \<in> set xs" and "\<not> hasDue a"
  shows "\<not> consistent (compareTodos ''dueDate'') xs"
proof
  assume "consistent (compareTodos ''dueDate'') xs"
  then have "compareTodos ''dueDate'' a a = Some 0"
    using assms(1) unfolding consistent_def by blast
  then show False
    using compare_undated [OF assms(2), of a] by simp
qed

text \<open>
  What the stable insertion, which tests \<^verbatim>\<open>comparefn(element, predecessor) < 0\<close>, makes
  of that function: the tasks with a due date in ascending order, then the tasks
  without one in the order received. An engine that runs such an algorithm without
  regard to the consistency of the function returns this list.
\<close>

lemma due_lt0_mixed: "hasDue x \<Longrightarrow> \<not> hasDue y \<Longrightarrow> lt0 (compareTodos ''dueDate'' x y)"
  by (auto simp: compareTodos_def hasDue_def lt0_def)

lemma due_lt0_undated: "\<not> hasDue x \<Longrightarrow> \<not> lt0 (compareTodos ''dueDate'' x y)"
  by (simp add: compare_undated lt0_def)

lemma due_step_dated:
  assumes ih: "stable_sort (compareTodos ''dueDate'') xs = D @ U"
    and U: "\<forall>y\<in>set U. \<not> hasDue y" and x: "hasDue x"
  shows "stable_sort (compareTodos ''dueDate'') (xs @ [x]) =
         rev (move_left (\<lambda>prev item. lt0 (compareTodos ''dueDate'' item prev)) x (rev D)) @ U"
proof -
  have "\<forall>y\<in>set (rev U). lt0 (compareTodos ''dueDate'' x y)"
    using U due_lt0_mixed [OF x] by simp
  then have "move_left (\<lambda>prev item. lt0 (compareTodos ''dueDate'' item prev)) x (rev U @ rev D) =
        rev U @ move_left (\<lambda>prev item. lt0 (compareTodos ''dueDate'' item prev)) x (rev D)"
    by (intro move_left_pass) simp
  then show ?thesis
    using ih by (simp add: stable_sort_def insertion_sort_snoc)
qed

lemma due_step_undated:
  assumes ih: "stable_sort (compareTodos ''dueDate'') xs = D @ U" and x: "\<not> hasDue x"
  shows "stable_sort (compareTodos ''dueDate'') (xs @ [x]) = D @ U @ [x]"
proof -
  have "\<forall>y\<in>set (rev U @ rev D). \<not> lt0 (compareTodos ''dueDate'' x y)"
    using due_lt0_undated [OF x] by simp
  then have "move_left (\<lambda>prev item. lt0 (compareTodos ''dueDate'' item prev)) x (rev U @ rev D) =
        x # rev U @ rev D"
    by (intro move_left_stop) simp
  then show ?thesis
    using ih by (simp add: stable_sort_def insertion_sort_snoc)
qed

lemma due_stable_split:
  "stable_sort (compareTodos ''dueDate'') xs =
     stable_sort (compareTodos ''dueDate'') (filter hasDue xs) @ filter (\<lambda>t. \<not> hasDue t) xs"
proof (induction xs rule: rev_induct)
  case Nil
  then show ?case by (simp add: stable_sort_def insertion_sort_Nil)
next
  case (snoc x xs)
  define D where "D = stable_sort (compareTodos ''dueDate'') (filter hasDue xs)"
  define U where "U = filter (\<lambda>t. \<not> hasDue t) xs"
  have ih: "stable_sort (compareTodos ''dueDate'') xs = D @ U"
    using snoc by (simp add: D_def U_def)
  have setU: "\<forall>y\<in>set U. \<not> hasDue y"
    by (simp add: U_def)
  show ?case
  proof (cases "hasDue x")
    case True
    have "stable_sort (compareTodos ''dueDate'') (filter hasDue (xs @ [x])) =
          rev (move_left (\<lambda>prev item. lt0 (compareTodos ''dueDate'' item prev)) x (rev D))"
      using True by (simp add: stable_sort_def insertion_sort_snoc D_def)
    moreover have "filter (\<lambda>t. \<not> hasDue t) (xs @ [x]) = U"
      using True by (simp add: U_def)
    ultimately show ?thesis
      using due_step_dated [OF ih setU True] by simp
  next
    case False
    have "stable_sort (compareTodos ''dueDate'') (filter hasDue (xs @ [x])) = D"
      using False by (simp add: D_def)
    moreover have "filter (\<lambda>t. \<not> hasDue t) (xs @ [x]) = U @ [x]"
      using False by (simp add: U_def)
    ultimately show ?thesis
      using due_step_undated [OF ih False] by simp
  qed
qed

lemma due_stable_dated:
  "stable_sort (compareTodos ''dueDate'') (filter hasDue xs) =
     sort_key (\<lambda>t. the (dueDate t)) (filter hasDue xs)"
  by (rule stable_sort_key) (simp add: compare_dated)

lemma dueDate_stable_insertion:
  "stable_sort (compareTodos ''dueDate'') xs =
     sort_key (\<lambda>t. the (dueDate t)) (filter hasDue xs) @ filter (\<lambda>t. \<not> hasDue t) xs"
  using due_stable_split [of xs] by (simp add: due_stable_dated)

lemma array_sort_insertion_engine:
  "array_sort insertion_engine comparefn xs = stable_sort comparefn xs"
  by (simp add: array_sort_def insertion_engine.rep_eq)

lemma dueDate_view_insertion_engine:
  assumes "currentSort st = ''dueDate''" and "filtered st = Some xs"
  shows "getFilteredTodos insertion_engine st =
           Some (sort_key (\<lambda>t. the (dueDate t)) (filter hasDue xs) @
                 filter (\<lambda>t. \<not> hasDue t) xs)"
  using assms
  by (simp add: getFilteredTodos_def array_sort_insertion_engine dueDate_stable_insertion)

section \<open>Strings\<close>

lemma char_of_eq_iff: "char_of (n :: nat) = c \<longleftrightarrow> n mod 256 = of_char c"
proof -
  have "char_of n = c \<longleftrightarrow> (of_char (char_of n :: char) :: nat) = of_char c"
    by (simp only: of_char_eq_iff)
  then show ?thesis by simp
qed

lemma eq_char_of_iff: "c = char_of (n :: nat) \<longleftrightarrow> of_char c = n mod 256"
  using char_of_eq_iff [of n c] by auto

lemma of_char_toLowerChar:
  "(of_char (toLowerChar c) :: nat) =
     (if (65 \<le> (of_char c :: nat) \<and> (of_char c :: nat) \<le> 90) \<or>
         (192 \<le> (of_char c :: nat) \<and> (of_char c :: nat) \<le> 222 \<and> (of_char c :: nat) \<noteq> 215)
      then of_char c + 32 else of_char c)"
  by (simp add: toLowerChar_def Let_def)

text \<open>
  \<^verbatim>\<open>toLowerCase\<close> identifies exactly the characters that are the same letter.
\<close>

lemma toLowerChar_eq_iff: "toLowerChar a = toLowerChar b \<longleftrightarrow> same_letter a b"
proof -
  have "toLowerChar a = toLowerChar b \<longleftrightarrow>
        (of_char (toLowerChar a) :: nat) = of_char (toLowerChar b)"
    by simp
  also have "\<dots> \<longleftrightarrow> same_letter a b"
    unfolding of_char_toLowerChar same_letter_def capital_of_def
    using of_char_eq_iff [of a b, where ?'a = nat]
    by (auto simp del: of_char_eq_iff)
  finally show ?thesis .
qed

lemma toLowerCase_examples:
  "toLowerCase ''Buy MILK'' = ''buy milk''"
  "toLowerCase [CHR 0xC9, CHR ''C'', CHR ''O'', CHR ''L'', CHR ''E''] =
     [CHR 0xE9, CHR ''c'', CHR ''o'', CHR ''l'', CHR ''e'']"
  "toLowerCase [CHR 0xD7, CHR 0xDF, CHR 0xF7, CHR 0xFF, CHR ''@'', CHR ''[''] =
     [CHR 0xD7, CHR 0xDF, CHR 0xF7, CHR 0xFF, CHR ''@'', CHR ''['']"
  by (simp_all add: toLowerCase_def toLowerChar_def Let_def char_of_eq_iff)

lemma startsWith_lower: "startsWith (toLowerCase s) (toLowerCase q) \<longleftrightarrow> ci_prefix s q"
  by (induction s q rule: ci_prefix.induct) (simp_all add: toLowerCase_def toLowerChar_eq_iff)

lemma includes_lower: "includes_str (toLowerCase s) (toLowerCase q) \<longleftrightarrow> ci_contains s q"
proof (induction s)
  case Nil
  then show ?case using startsWith_lower [of "[]" q] by (simp add: toLowerCase_def)
next
  case (Cons a s)
  then show ?case using startsWith_lower [of "a # s" q] by (simp add: toLowerCase_def)
qed

lemma toLowerCase_Nil_iff: "toLowerCase s = [] \<longleftrightarrow> s = []"
  by (simp add: toLowerCase_def)

section \<open>The filters\<close>

lemma filter_throwing_eq:
  "filter_throwing p xs =
     (if \<exists>x\<in>set xs. p x = None then None else Some (filter (\<lambda>x. p x = Some True) xs))"
  by (induction xs) (auto split: option.splits)

lemma searchCallback_lower:
  "searchCallback (toLowerCase q) t =
     (if ci_contains (title t) q then Some True
      else case category t of None \<Rightarrow> None | Some c \<Rightarrow> Some (ci_contains c q))"
  by (simp add: searchCallback_def includes_lower split: option.splits)

lemma view_unfold:
  "view eng cache filterStatus searchText sortKey =
     (case (if searchText \<noteq> []
            then filter_throwing (searchCallback (toLowerCase searchText))
                   (filter (passesStatus filterStatus) cache)
            else Some (filter (passesStatus filterStatus) cache)) of
        None \<Rightarrow> None
      | Some xs \<Rightarrow> Some (array_sort eng (compareTodos sortKey) xs))"
proof -
  define st where "st = handleSort sortKey (handleSearch searchText
    (handleFilterChange filterStatus (initial_state\<lparr>todos := cache\<rparr>)))"
  have fields: "todos st = cache" "currentFilter st = filterStatus"
    "searchQuery st = toLowerCase searchText" "currentSort st = sortKey"
    by (simp_all add: st_def handleSort_def handleSearch_def handleFilterChange_def)
  have byStatus: "(if currentFilter st \<noteq> ''all''
         then filter (\<lambda>todo. status todo = Some (currentFilter st)) (todos st) else todos st) =
        filter (passesStatus filterStatus) cache"
    by (cases "filterStatus = ''all''") (simp_all add: fields passesStatus_def [abs_def])
  have f: "filtered st =
        (if searchText \<noteq> []
         then filter_throwing (searchCallback (toLowerCase searchText))
                (filter (passesStatus filterStatus) cache)
         else Some (filter (passesStatus filterStatus) cache))"
    unfolding filtered_def Let_def byStatus by (simp add: fields toLowerCase_Nil_iff)
  have "view eng cache filterStatus searchText sortKey = getFilteredTodos eng st"
    by (simp add: view_def st_def)
  then show ?thesis
    unfolding getFilteredTodos_def fields f by simp
qed

lemma view_all_newest:
  "view eng cache ''all'' [] ''newest'' = Some (sort_key (\<lambda>t. - createdAt t) cache)"
proof -
  have "array_sort eng (compareTodos ''newest'') cache = sort_key (\<lambda>t. - createdAt t) cache"
    by (rule array_sort_key) (simp add: compareTodos_def)
  then show ?thesis
    by (simp add: view_unfold passesStatus_def)
qed

lemmas ex_defs = ex_milk_def ex_report_def ex_gym_def ex_note_def ex_state_def initial_state_def

lemmas string_defs = toLowerCase_def toLowerChar_def char_of_eq_iff eq_char_of_iff
  same_letter_def capital_of_def

section \<open>The view (app.js, getFilteredTodos)\<close>

text \<open>
  Claim C5 fails for a cache that holds a task whose category is \<^verbatim>\<open>null\<close> (an update
  can store it): searching \<^verbatim>\<open>milk\<close> in the cache of \<^verbatim>\<open>Note\<close>, which has no category, and
  \<^verbatim>\<open>Buy milk\<close> gives no view, because \<^verbatim>\<open>getFilteredTodos\<close> throws a TypeError at
  \<^verbatim>\<open>Note\<close>.
\<close>

theorem view_null_category_counterexample:
  "category ex_note = None \<and> \<not> ci_contains (title ex_note) ''milk'' \<and>
   ci_contains (title ex_milk) ''milk'' \<and>
   view insertion_engine [ex_note, ex_milk] ''all'' ''milk'' ''newest'' = None"
  by (simp add: view_unfold passesStatus_def searchCallback_def ex_defs string_defs)

text \<open>
  Claim C5, what holds. The view holds exactly the cached tasks (with their multiplicities) whose
  status equals the filter, unless the filter is \<^verbatim>\<open>all\<close>, and which, when the search
  text is not empty, contain it as a substring of their title or of their category when
  case is ignored: this holds for every sort key and every engine, provided that the
  search meets no task that passes the status filter, does not match by its title and
  has the category \<^verbatim>\<open>null\<close>. When it meets such a task, \<^verbatim>\<open>getFilteredTodos\<close> throws a
  TypeError and there is no view.
\<close>

theorem view_contents:
  "((\<exists>t\<in>set cache. untestable filterStatus searchText t) \<longrightarrow>
      view eng cache filterStatus searchText sortKey = None) \<and>
   (\<not> (\<exists>t\<in>set cache. untestable filterStatus searchText t) \<longrightarrow>
      (\<exists>ys. view eng cache filterStatus searchText sortKey = Some ys \<and>
            mset ys = mset (filter (\<lambda>t. passesStatus filterStatus t \<and>
                                        passesSearch searchText t) cache)))"
proof (cases "searchText = []")
  case True
  then show ?thesis
    by (simp add: view_unfold untestable_def passesSearch_def mset_array_sort)
next
  case False
  let ?byStatus = "filter (passesStatus filterStatus) cache"
  have throws: "(\<exists>t\<in>set ?byStatus. searchCallback (toLowerCase searchText) t = None) \<longleftrightarrow>
                (\<exists>t\<in>set cache. untestable filterStatus searchText t)"
    using False by (auto simp: searchCallback_lower untestable_def split: option.splits)
  have keeps: "filter (\<lambda>t. searchCallback (toLowerCase searchText) t = Some True) ?byStatus =
               filter (\<lambda>t. passesStatus filterStatus t \<and> passesSearch searchText t) cache"
    unfolding filter_filter
    by (rule filter_cong)
       (use False in \<open>auto simp: searchCallback_lower passesSearch_def split: option.splits\<close>)
  have v: "view eng cache filterStatus searchText sortKey =
           (if \<exists>t\<in>set cache. untestable filterStatus searchText t then None
            else Some (array_sort eng (compareTodos sortKey)
                   (filter (\<lambda>t. passesStatus filterStatus t \<and> passesSearch searchText t) cache)))"
    using False unfolding view_unfold filter_throwing_eq throws keeps by simp
  show ?thesis
  proof (cases "\<exists>t\<in>set cache. untestable filterStatus searchText t")
    case True
    then show ?thesis using v by simp
  next
    case no: False
    then show ?thesis using v by (simp add: mset_array_sort)
  qed
qed

theorem view_contents_witness:
  "\<not> (\<exists>t\<in>set [ex_milk, ex_report, ex_gym]. untestable ''todo'' ''MILK'' t) \<and>
   view insertion_engine [ex_milk, ex_report, ex_gym] ''todo'' ''MILK'' ''newest'' = Some [ex_milk] \<and>
   filter (\<lambda>t. passesStatus ''todo'' t \<and> passesSearch ''MILK'' t) [ex_milk, ex_report, ex_gym] =
     [ex_milk] \<and>
   (\<exists>t\<in>set [ex_note, ex_milk]. untestable ''all'' ''milk'' t) \<and>
   view insertion_engine [ex_note, ex_milk] ''all'' ''milk'' ''newest'' = None"
proof -
  have a: "\<not> (\<exists>t\<in>set [ex_milk, ex_report, ex_gym]. untestable ''todo'' ''MILK'' t)"
    by (simp add: untestable_def ex_defs)
  have f: "filter (\<lambda>t. passesStatus ''todo'' t \<and> passesSearch ''MILK'' t)
             [ex_milk, ex_report, ex_gym] = [ex_milk]"
    by (simp add: passesStatus_def passesSearch_def ex_defs string_defs)
  have b: "\<exists>t\<in>set [ex_note, ex_milk]. untestable ''all'' ''milk'' t"
    by (simp add: untestable_def passesStatus_def ex_defs string_defs)
  from view_contents [of "[ex_milk, ex_report, ex_gym]" "''todo''" "''MILK''" insertion_engine
      "''newest''", THEN conjunct2, THEN mp, OF a]
  have "view insertion_engine [ex_milk, ex_report, ex_gym] ''todo'' ''MILK'' ''newest'' = Some [ex_milk]"
    unfolding f by (auto simp: mset_single_iff)
  moreover from view_contents [of "[ex_note, ex_milk]" "''all''" "''milk''" insertion_engine
      "''newest''", THEN conjunct1, THEN mp, OF b]
  have "view insertion_engine [ex_note, ex_milk] ''all'' ''milk'' ''newest'' = None" .
  ultimately show ?thesis
    using a f b by blast
qed

text \<open>
  Claim C6. For a cache whose \<^verbatim>\<open>createdAt\<close> values are pairwise distinct, the view
  \<^verbatim>\<open>view(cache, 'all', '', 'newest')\<close> returns a list that holds all cached tasks, in
  strictly descending order of \<^verbatim>\<open>createdAt\<close>, and the reversed cache gives the same
  list, on every engine.
\<close>

theorem newest_view_order_independent:
  assumes "distinct (map createdAt cache)"
  shows "\<exists>ys. view eng cache ''all'' [] ''newest'' = Some ys \<and> mset ys = mset cache \<and>
           sorted_wrt (\<lambda>a b. createdAt a > createdAt b) ys \<and>
           view eng' (rev cache) ''all'' [] ''newest'' = Some ys"
proof -
  let ?f = "\<lambda>t. - createdAt t"
  let ?v = "sort_key ?f cache"
  have inj: "inj_on createdAt (set cache)" and dist: "distinct cache"
    using assms by (auto simp: distinct_map)
  have injf: "inj_on ?f (set cache)"
    using inj by (auto simp: inj_on_def)
  have 1: "mset ?v = mset cache" by simp
  have "sorted (map ?f ?v)" by simp
  then have le: "sorted_wrt (\<lambda>a b. createdAt b \<le> createdAt a) ?v"
    by (simp add: sorted_map)
  have "distinct (map createdAt ?v)"
    using assms by (simp add: distinct_map)
  then have ne: "sorted_wrt (\<lambda>a b. createdAt a \<noteq> createdAt b) ?v"
    by (simp add: distinct_map sorted_wrt_map [symmetric] distinct_conv_nth sorted_wrt_iff_nth_less)
  have 2: "sorted_wrt (\<lambda>a b. createdAt a > createdAt b) ?v"
    using le ne unfolding sorted_wrt_iff_nth_less by (metis order.not_eq_order_implies_strict)
  have 3: "sort_key ?f (rev cache) = ?v"
    by (rule sort_key_inj_key_eq) (use injf in auto)
  show ?thesis
    using 1 2 3 by (simp add: view_all_newest)
qed

theorem newest_view_order_independent_witness:
  "distinct (map createdAt [ex_milk, ex_report, ex_gym]) \<and>
   view insertion_engine [ex_milk, ex_report, ex_gym] ''all'' [] ''newest'' =
     Some [ex_gym, ex_report, ex_milk] \<and>
   view insertion_engine (rev [ex_milk, ex_report, ex_gym]) ''all'' [] ''newest'' =
     Some [ex_gym, ex_report, ex_milk]"
proof -
  have d: "distinct (map createdAt [ex_milk, ex_report, ex_gym])"
    by (simp add: ex_defs)
  from newest_view_order_independent [OF d, of insertion_engine insertion_engine]
  obtain ys where v: "view insertion_engine [ex_milk, ex_report, ex_gym] ''all'' [] ''newest'' = Some ys"
    and r: "view insertion_engine (rev [ex_milk, ex_report, ex_gym]) ''all'' [] ''newest'' = Some ys"
    by blast
  have "view insertion_engine [ex_milk, ex_report, ex_gym] ''all'' [] ''newest'' =
        Some [ex_gym, ex_report, ex_milk]"
    by (simp add: view_all_newest ex_defs)
  then show ?thesis
    using d v r by simp
qed

text \<open>
  Claim C1 fails at the comparison function: for two tasks without a due date it
  answers 1 whichever is its first argument, and 1 also for such a task and itself, so
  it reports no tie and is not a consistent comparison function for an array that
  holds such a task.
\<close>

theorem dueDate_ties_counterexample:
  "compareTodos ''dueDate'' ex_milk ex_report = Some 1 \<and>
   compareTodos ''dueDate'' ex_report ex_milk = Some 1 \<and>
   compareTodos ''dueDate'' ex_milk ex_milk = Some 1 \<and>
   \<not> consistent (compareTodos ''dueDate'') [ex_milk, ex_report] \<and>
   filtered (initial_state\<lparr>todos := [ex_milk, ex_report], currentSort := ''dueDate''\<rparr>) =
     Some [ex_milk, ex_report]"
  by (simp add: compareTodos_def consistent_def filtered_def ex_defs)

text \<open>
  Claim C1, what holds. With the sort key \<^verbatim>\<open>dueDate\<close>: when every task of the filtered
  list has a due date, the view is that list in ascending order of date, equal dates in
  the order received, on every engine. When the list holds a task without a due date,
  the comparison function answers 1 for that task and any other, so it is not
  consistent, and the order of the whole view is the one the engine chooses.
\<close>

theorem dueDate_sort_order:
  assumes "currentSort st = ''dueDate''" and "filtered st = Some xs"
  shows "((\<forall>t\<in>set xs. hasDue t) \<longrightarrow>
            getFilteredTodos eng st = Some (sort_key (\<lambda>t. the (dueDate t)) xs)) \<and>
         (\<forall>a\<in>set xs. \<not> hasDue a \<longrightarrow>
            (\<forall>b. compareTodos ''dueDate'' a b = Some 1) \<and>
            \<not> consistent (compareTodos ''dueDate'') xs \<and>
            getFilteredTodos eng st =
              Some (implementation_defined eng (compareTodos ''dueDate'') xs))"
proof (intro conjI impI ballI allI)
  assume all: "\<forall>t\<in>set xs. hasDue t"
  have "array_sort eng (compareTodos ''dueDate'') xs = sort_key (\<lambda>t. the (dueDate t)) xs"
    by (rule array_sort_key) (use all in \<open>simp add: compare_dated\<close>)
  then show "getFilteredTodos eng st = Some (sort_key (\<lambda>t. the (dueDate t)) xs)"
    using assms by (simp add: getFilteredTodos_def)
next
  fix a b
  assume "a \<in> set xs" and "\<not> hasDue a"
  then show "compareTodos ''dueDate'' a b = Some 1"
    by (simp add: compare_undated)
next
  fix a
  assume a: "a \<in> set xs" "\<not> hasDue a"
  then show n: "\<not> consistent (compareTodos ''dueDate'') xs"
    by (rule due_not_consistent)
  then show "getFilteredTodos eng st =
             Some (implementation_defined eng (compareTodos ''dueDate'') xs)"
    using assms by (simp add: getFilteredTodos_def array_sort_def)
qed

theorem dueDate_sort_order_witness:
  "currentSort ex_state = ''dueDate'' \<and>
   filtered ex_state = Some [ex_milk, ex_report, ex_gym] \<and>
   \<not> hasDue ex_milk \<and>
   compareTodos ''dueDate'' ex_milk ex_milk = Some 1 \<and>
   \<not> consistent (compareTodos ''dueDate'') [ex_milk, ex_report, ex_gym] \<and>
   getFilteredTodos insertion_engine ex_state = Some [ex_gym, ex_milk, ex_report] \<and>
   filtered (ex_state\<lparr>todos := [ex_gym]\<rparr>) = Some [ex_gym] \<and>
   getFilteredTodos insertion_engine (ex_state\<lparr>todos := [ex_gym]\<rparr>) = Some [ex_gym]"
proof -
  have c: "currentSort ex_state = ''dueDate''"
    by (simp add: ex_defs)
  have f: "filtered ex_state = Some [ex_milk, ex_report, ex_gym]"
    by (simp add: filtered_def ex_state_def initial_state_def)
  have m: "ex_milk \<in> set [ex_milk, ex_report, ex_gym]" "\<not> hasDue ex_milk"
    by (simp_all add: hasDue_def ex_defs)
  note t = dueDate_sort_order [OF c f, of insertion_engine, THEN conjunct2, rule_format, OF m]
  have c2: "currentSort (ex_state\<lparr>todos := [ex_gym]\<rparr>) = ''dueDate''"
    by (simp add: ex_defs)
  have f2: "filtered (ex_state\<lparr>todos := [ex_gym]\<rparr>) = Some [ex_gym]"
    by (simp add: filtered_def ex_state_def initial_state_def)
  have g: "\<forall>t\<in>set [ex_gym]. hasDue t"
    by (simp add: hasDue_def ex_defs)
  note u = dueDate_sort_order [OF c2 f2, of insertion_engine, THEN conjunct1, THEN mp, OF g]
  have i: "implementation_defined insertion_engine (compareTodos ''dueDate'')
             [ex_milk, ex_report, ex_gym] = [ex_gym, ex_milk, ex_report]"
    by (simp add: insertion_engine.rep_eq dueDate_stable_insertion hasDue_def ex_defs)
  show ?thesis
    using c f f2 m(2) t u by (simp add: i)
qed

section \<open>The request handlers (server.js)\<close>

lemmas server_defs = post_todos_def save_def titlePath_def enumPath_def validateEnum_def
  castDate_def orDefault_def dueOrNull_def statusEnum_def priorityEnum_def categoryEnum_def
  trim_def isWhiteSpace_def put_todo_def buildUpdates_def findByIdAndUpdate_def
  validateUpdates_def updTitle_def updEnum_def updDate_def applyPatch_def findById_def
  delete_todo_def findByIdAndDelete_def delete_todos_def deleteMany_def
  empty_body_def ex_env_def ex_store_def ex_milk_def Let_def

lemma dropWhile_trim: "dropWhile isWhiteSpace (trim s) = trim s"
proof (cases "trim s = []")
  case True
  then show ?thesis by simp
next
  case False
  define d where "d = dropWhile isWhiteSpace s"
  have r: "trim s = rev (dropWhile isWhiteSpace (rev d))"
    by (simp add: trim_def d_def)
  have "trim s @ rev (takeWhile isWhiteSpace (rev d)) =
        rev (takeWhile isWhiteSpace (rev d) @ dropWhile isWhiteSpace (rev d))"
    by (simp only: r rev_append)
  also have "\<dots> = d" by simp
  finally have d: "d = trim s @ rev (takeWhile isWhiteSpace (rev d))"
    by simp
  then have "hd d = hd (trim s)" and "d \<noteq> []"
    using False by (metis hd_append2, metis append_is_Nil_conv)
  moreover have "\<not> isWhiteSpace (hd d)"
    using \<open>d \<noteq> []\<close> unfolding d_def by (rule hd_dropWhile)
  ultimately have "\<not> isWhiteSpace (hd (trim s))" by simp
  then show ?thesis
    using False by (cases "trim s") simp_all
qed

lemma trim_trim: "trim (trim s) = trim s"
proof -
  have "rev (trim s) = dropWhile isWhiteSpace (rev (dropWhile isWhiteSpace s))"
    by (simp add: trim_def)
  then have "dropWhile isWhiteSpace (rev (trim s)) = rev (trim s)"
    by (simp add: dropWhile_idem)
  then have "rev (dropWhile isWhiteSpace (rev (dropWhile isWhiteSpace (trim s)))) = trim s"
    by (simp add: dropWhile_trim)
  then show ?thesis
    by (simp add: trim_def [of "trim s"])
qed

lemma trim_blank: "\<forall>c\<in>set t. isWhiteSpace c \<Longrightarrow> trim t = []"
proof -
  assume "\<forall>c\<in>set t. isWhiteSpace c"
  then have d: "dropWhile isWhiteSpace t = []" by simp
  show ?thesis unfolding trim_def d by simp
qed

text \<open>
  Claim C8. A create request whose title is missing (absent or \<^verbatim>\<open>null\<close>), empty or made
  of white space only is answered with status 400 and the message
  \<^verbatim>\<open>Title is required\<close>, and the store is left as it was.
\<close>

theorem post_blank_title_rejected:
  assumes "body_title b = JUndefined \<or> body_title b = JNull \<or>
           (\<exists>t. body_title b = JStr t \<and> (\<forall>c\<in>set t. isWhiteSpace c))"
  shows "post_todos e b s = (Failure E400 ''Title is required'', s) \<and>
         status_of (fst (post_todos e b s)) = 400 \<and> docs (snd (post_todos e b s)) = docs s"
proof -
  have "post_todos e b s = (Failure E400 ''Title is required'', s)"
    using assms by (auto simp: post_todos_def trim_blank)
  then show ?thesis by simp
qed

theorem post_blank_title_rejected_witness:
  "list_all isWhiteSpace ''   '' \<and>
   post_todos ex_env (empty_body\<lparr>body_title := JStr ''   ''\<rparr>) ex_store =
     (Failure E400 ''Title is required'', ex_store) \<and>
   post_todos ex_env empty_body ex_store = (Failure E400 ''Title is required'', ex_store)"
proof -
  have w: "\<forall>c\<in>set ''   ''. isWhiteSpace c"
    by (simp add: isWhiteSpace_def)
  have 1: "body_title (empty_body\<lparr>body_title := JStr ''   ''\<rparr>) = JUndefined \<or>
        body_title (empty_body\<lparr>body_title := JStr ''   ''\<rparr>) = JNull \<or>
        (\<exists>t. body_title (empty_body\<lparr>body_title := JStr ''   ''\<rparr>) = JStr t \<and>
             (\<forall>c\<in>set t. isWhiteSpace c))"
    using w by simp
  have 2: "body_title empty_body = JUndefined \<or> body_title empty_body = JNull \<or>
        (\<exists>t. body_title empty_body = JStr t \<and> (\<forall>c\<in>set t. isWhiteSpace c))"
    by (simp add: empty_body_def)
  show ?thesis
    using w post_blank_title_rejected [OF 1, of ex_env ex_store]
      post_blank_title_rejected [OF 2, of ex_env ex_store] by (simp add: list_all_iff)
qed

lemma enums_no_boolean:
  "''true'' \<notin> set statusEnum \<and> ''false'' \<notin> set statusEnum"
  "''true'' \<notin> set priorityEnum \<and> ''false'' \<notin> set priorityEnum"
  "''true'' \<notin> set categoryEnum \<and> ''false'' \<notin> set categoryEnum"
  by (simp_all add: statusEnum_def priorityEnum_def categoryEnum_def)

lemma enums_nonempty:
  "[] \<notin> set statusEnum" "[] \<notin> set priorityEnum" "[] \<notin> set categoryEnum"
  by (simp_all add: statusEnum_def priorityEnum_def categoryEnum_def)

lemma validateEnum_rejects:
  assumes "outside allowed v" and "\<not> tolerated allowed v"
    and "''true'' \<notin> set allowed \<and> ''false'' \<notin> set allowed"
  shows "\<exists>f. validateEnum allowed v = Inl f"
  using assms by (cases v) (auto simp: outside_def tolerated_def validateEnum_def)

lemma validateEnum_tolerated:
  assumes "tolerated allowed v" and "[] \<notin> set allowed"
  shows "validateEnum allowed v = Inr (supplied_word v)"
  using assms by (cases v) (auto simp: tolerated_def validateEnum_def supplied_word_def)

lemma validateEnum_Inr:
  assumes "validateEnum allowed v = Inr r"
    and "''true'' \<notin> set allowed \<and> ''false'' \<notin> set allowed"
  shows "(v = JUndefined \<or> v = JNull) \<and> r = None \<or>
         (\<exists>x. (v = JStr x \<or> v = JDoc x) \<and> x \<in> set allowed \<and> r = Some x)"
  using assms by (cases v) (auto simp: validateEnum_def split: if_splits)

lemma updEnum_rejects:
  assumes "outside allowed v" and "\<not> tolerated allowed v"
    and "''true'' \<notin> set allowed \<and> ''false'' \<notin> set allowed"
  shows "\<exists>f. updEnum allowed v = Inl f"
  using validateEnum_rejects [OF assms] assms(1) by (auto simp: updEnum_def outside_def)

lemma validateUpdates_rejects:
  assumes "(outside statusEnum (upd_status u) \<and> \<not> tolerated statusEnum (upd_status u)) \<or>
           (outside priorityEnum (upd_priority u) \<and> \<not> tolerated priorityEnum (upd_priority u)) \<or>
           (outside categoryEnum (upd_category u) \<and> \<not> tolerated categoryEnum (upd_category u))"
  shows "\<exists>f. validateUpdates u = Inl f"
proof -
  from assms consider
      (s) f where "updEnum statusEnum (upd_status u) = Inl f"
    | (p) f where "updEnum priorityEnum (upd_priority u) = Inl f"
    | (c) f where "updEnum categoryEnum (upd_category u) = Inl f"
    using updEnum_rejects enums_no_boolean by blast
  then show ?thesis
    by cases (auto simp: validateUpdates_def split: sum.splits)
qed

lemma buildUpdates_fields:
  "buildUpdates b = Some u \<Longrightarrow>
   upd_status u = body_status b \<and> upd_priority u = body_priority b \<and>
   upd_category u = body_category b \<and> upd_dueDate u = body_dueDate b \<and>
   (body_title b = JUndefined \<longrightarrow> upd_title u = None) \<and>
   (\<forall>x. body_title b = JStr x \<longrightarrow> upd_title u = Some (trim x))"
  by (auto simp: buildUpdates_def split: jsval.splits)

lemma findById_Some: "findById i ts = Some t \<Longrightarrow> todo_id t = i \<and> t \<in> set ts"
  by (auto simp: findById_def find_Some_iff)

lemma replaceById_same: "findById i ts = Some t \<Longrightarrow> replaceById i t ts = ts"
  by (induction ts) (auto simp: findById_def split: if_splits)

lemma replaceById_others:
  "todo_id new = i \<Longrightarrow>
   filter (\<lambda>u. todo_id u \<noteq> i) (replaceById i new ts) = filter (\<lambda>u. todo_id u \<noteq> i) ts"
  by (induction ts) auto

lemma put_one_field:
  assumes "findById i (docs s) = Some t" and "\<not> db_fault e"
    and "validateUpdates u = Inr p" and "buildUpdates b = Some u"
  shows "put_todo e (ObjectId i) b s =
         (Success 200 (applyPatch p t), s\<lparr>docs := replaceById i (applyPatch p t) (docs s)\<rparr>)"
  using assms by (simp add: put_todo_def findByIdAndUpdate_def)

lemma upd_absent:
  "updEnum allowed JUndefined = Inr None" "updTitle None = Inr None" "updDate DueAbsent = Inr None"
  by (simp_all add: updEnum_def updTitle_def updDate_def)

lemma put_tolerated_status:
  assumes "tolerated statusEnum v" and "findById i (docs s) = Some t" and "\<not> db_fault e"
  shows "put_todo e (ObjectId i) (empty_body\<lparr>body_status := v\<rparr>) s =
         (Success 200 (t\<lparr>status := supplied_word v\<rparr>),
          s\<lparr>docs := replaceById i (t\<lparr>status := supplied_word v\<rparr>) (docs s)\<rparr>)"
proof -
  have u: "updEnum statusEnum v = Inr (Some (supplied_word v))"
    using assms(1) validateEnum_tolerated [OF assms(1) enums_nonempty(1)]
    by (auto simp: updEnum_def tolerated_def)
  have "validateUpdates \<lparr>upd_title = None, upd_status = v, upd_priority = JUndefined,
          upd_category = JUndefined, upd_dueDate = DueAbsent\<rparr> =
        Inr \<lparr>set_title = None, set_status = Some (supplied_word v), set_priority = None,
             set_category = None, set_dueDate = None\<rparr>"
    by (simp add: validateUpdates_def upd_absent u)
  from put_one_field [OF assms(2,3) this, of "empty_body\<lparr>body_status := v\<rparr>"]
  show ?thesis
    by (simp add: buildUpdates_def empty_body_def applyPatch_def)
qed

lemma put_tolerated_priority:
  assumes "tolerated priorityEnum v" and "findById i (docs s) = Some t" and "\<not> db_fault e"
  shows "put_todo e (ObjectId i) (empty_body\<lparr>body_priority := v\<rparr>) s =
         (Success 200 (t\<lparr>priority := supplied_word v\<rparr>),
          s\<lparr>docs := replaceById i (t\<lparr>priority := supplied_word v\<rparr>) (docs s)\<rparr>)"
proof -
  have u: "updEnum priorityEnum v = Inr (Some (supplied_word v))"
    using assms(1) validateEnum_tolerated [OF assms(1) enums_nonempty(2)]
    by (auto simp: updEnum_def tolerated_def)
  have "validateUpdates \<lparr>upd_title = None, upd_status = JUndefined, upd_priority = v,
          upd_category = JUndefined, upd_dueDate = DueAbsent\<rparr> =
        Inr \<lparr>set_title = None, set_status = None, set_priority = Some (supplied_word v),
             set_category = None, set_dueDate = None\<rparr>"
    by (simp add: validateUpdates_def upd_absent u)
  from put_one_field [OF assms(2,3) this, of "empty_body\<lparr>body_priority := v\<rparr>"]
  show ?thesis
    by (simp add: buildUpdates_def empty_body_def applyPatch_def)
qed

lemma put_tolerated_category:
  assumes "tolerated categoryEnum v" and "findById i (docs s) = Some t" and "\<not> db_fault e"
  shows "put_todo e (ObjectId i) (empty_body\<lparr>body_category := v\<rparr>) s =
         (Success 200 (t\<lparr>category := supplied_word v\<rparr>),
          s\<lparr>docs := replaceById i (t\<lparr>category := supplied_word v\<rparr>) (docs s)\<rparr>)"
proof -
  have u: "updEnum categoryEnum v = Inr (Some (supplied_word v))"
    using assms(1) validateEnum_tolerated [OF assms(1) enums_nonempty(3)]
    by (auto simp: updEnum_def tolerated_def)
  have "validateUpdates \<lparr>upd_title = None, upd_status = JUndefined, upd_priority = JUndefined,
          upd_category = v, upd_dueDate = DueAbsent\<rparr> =
        Inr \<lparr>set_title = None, set_status = None, set_priority = None,
             set_category = Some (supplied_word v), set_dueDate = None\<rparr>"
    by (simp add: validateUpdates_def upd_absent u)
  from put_one_field [OF assms(2,3) this, of "empty_body\<lparr>body_category := v\<rparr>"]
  show ?thesis
    by (simp add: buildUpdates_def empty_body_def applyPatch_def)
qed

text \<open>
  Claim C2, as stated, fails: an update with a well-formed identifier whose body sets
  \<^verbatim>\<open>status\<close> to \<^verbatim>\<open>'bogus'\<close> is answered with status 500, not with a status of the
  400 class; and one whose body sets \<^verbatim>\<open>status\<close> to \<^verbatim>\<open>null\<close> does not fail at all: it
  is answered 200 and \<^verbatim>\<open>null\<close> is stored.
\<close>

theorem put_invalid_enum_counterexample:
  "put_todo ex_env (ObjectId 1) (empty_body\<lparr>body_status := JStr ''bogus''\<rparr>) ex_store =
     (Failure E500 ''Failed to update todo'', ex_store) \<and>
   status_of (fst (put_todo ex_env (ObjectId 1) (empty_body\<lparr>body_status := JStr ''bogus''\<rparr>)
     ex_store)) = 500 \<and>
   put_todo ex_env (ObjectId 1) (empty_body\<lparr>body_status := JNull\<rparr>) ex_store =
     (Success 200 (ex_milk\<lparr>status := None\<rparr>), ex_store\<lparr>docs := [ex_milk\<lparr>status := None\<rparr>]\<rparr>)"
  by (simp add: put_todo_def buildUpdates_def empty_body_def findByIdAndUpdate_def
      validateUpdates_def updTitle_def updEnum_def updDate_def validateEnum_def statusEnum_def
      applyPatch_def findById_def ex_env_def ex_store_def ex_milk_def)

text \<open>
  Claim C2, amended. For an update request with a well-formed identifier:
  \<^item> when the body assigns \<^verbatim>\<open>status\<close>, \<^verbatim>\<open>priority\<close> or \<^verbatim>\<open>category\<close> a value outside the
    field's enumerated set, other than \<^verbatim>\<open>null\<close> and other than an object whose \<^verbatim>\<open>_id\<close>
    is one of the listed strings, the cast or the update validators fail; the handler's
    only \<^verbatim>\<open>catch\<close> block answers with status 500 and the message
    \<^verbatim>\<open>Failed to update todo\<close>, and the store is left as it was;
  \<^item> \<^verbatim>\<open>null\<close>, and an object whose \<^verbatim>\<open>_id\<close> is one of the listed strings, are accepted:
    the update of an existing task with such a value alone is answered 200, and the
    field is set to \<^verbatim>\<open>null\<close>, respectively to that string.
\<close>

theorem put_invalid_enum_is_500:
  "((outside statusEnum (body_status b) \<and> \<not> tolerated statusEnum (body_status b)) \<or>
    (outside priorityEnum (body_priority b) \<and> \<not> tolerated priorityEnum (body_priority b)) \<or>
    (outside categoryEnum (body_category b) \<and> \<not> tolerated categoryEnum (body_category b)) \<longrightarrow>
      put_todo e (ObjectId i) b s = (Failure E500 ''Failed to update todo'', s) \<and>
      status_of (fst (put_todo e (ObjectId i) b s)) = 500) \<and>
   (findById i (docs s) = Some t \<and> \<not> db_fault e \<longrightarrow>
      (\<forall>v. tolerated statusEnum v \<longrightarrow>
         put_todo e (ObjectId i) (empty_body\<lparr>body_status := v\<rparr>) s =
           (Success 200 (t\<lparr>status := supplied_word v\<rparr>),
            s\<lparr>docs := replaceById i (t\<lparr>status := supplied_word v\<rparr>) (docs s)\<rparr>)) \<and>
      (\<forall>v. tolerated priorityEnum v \<longrightarrow>
         put_todo e (ObjectId i) (empty_body\<lparr>body_priority := v\<rparr>) s =
           (Success 200 (t\<lparr>priority := supplied_word v\<rparr>),
            s\<lparr>docs := replaceById i (t\<lparr>priority := supplied_word v\<rparr>) (docs s)\<rparr>)) \<and>
      (\<forall>v. tolerated categoryEnum v \<longrightarrow>
         put_todo e (ObjectId i) (empty_body\<lparr>body_category := v\<rparr>) s =
           (Success 200 (t\<lparr>category := supplied_word v\<rparr>),
            s\<lparr>docs := replaceById i (t\<lparr>category := supplied_word v\<rparr>) (docs s)\<rparr>)))"
proof (intro conjI impI allI)
  assume bad: "(outside statusEnum (body_status b) \<and> \<not> tolerated statusEnum (body_status b)) \<or>
    (outside priorityEnum (body_priority b) \<and> \<not> tolerated priorityEnum (body_priority b)) \<or>
    (outside categoryEnum (body_category b) \<and> \<not> tolerated categoryEnum (body_category b))"
  show r: "put_todo e (ObjectId i) b s = (Failure E500 ''Failed to update todo'', s)"
  proof (cases "buildUpdates b")
    case None
    then show ?thesis by (simp add: put_todo_def)
  next
    case (Some u)
    have "\<exists>f. validateUpdates u = Inl f"
      by (rule validateUpdates_rejects) (use bad buildUpdates_fields [OF Some] in simp)
    then show ?thesis
      using Some by (auto simp: put_todo_def findByIdAndUpdate_def)
  qed
  show "status_of (fst (put_todo e (ObjectId i) b s)) = 500"
    by (simp add: r)
next
  fix v
  assume "findById i (docs s) = Some t \<and> \<not> db_fault e" and "tolerated statusEnum v"
  then show "put_todo e (ObjectId i) (empty_body\<lparr>body_status := v\<rparr>) s =
           (Success 200 (t\<lparr>status := supplied_word v\<rparr>),
            s\<lparr>docs := replaceById i (t\<lparr>status := supplied_word v\<rparr>) (docs s)\<rparr>)"
    by (intro put_tolerated_status) simp_all
next
  fix v
  assume "findById i (docs s) = Some t \<and> \<not> db_fault e" and "tolerated priorityEnum v"
  then show "put_todo e (ObjectId i) (empty_body\<lparr>body_priority := v\<rparr>) s =
           (Success 200 (t\<lparr>priority := supplied_word v\<rparr>),
            s\<lparr>docs := replaceById i (t\<lparr>priority := supplied_word v\<rparr>) (docs s)\<rparr>)"
    by (intro put_tolerated_priority) simp_all
next
  fix v
  assume "findById i (docs s) = Some t \<and> \<not> db_fault e" and "tolerated categoryEnum v"
  then show "put_todo e (ObjectId i) (empty_body\<lparr>body_category := v\<rparr>) s =
           (Success 200 (t\<lparr>category := supplied_word v\<rparr>),
            s\<lparr>docs := replaceById i (t\<lparr>category := supplied_word v\<rparr>) (docs s)\<rparr>)"
    by (intro put_tolerated_category) simp_all
qed

theorem put_invalid_enum_is_500_witness:
  "outside statusEnum (JStr ''bogus'') \<and> \<not> tolerated statusEnum (JStr ''bogus'') \<and>
   put_todo ex_env (ObjectId 1) (empty_body\<lparr>body_status := JStr ''bogus''\<rparr>) ex_store =
     (Failure E500 ''Failed to update todo'', ex_store) \<and>
   outside statusEnum (JDoc ''completed'') \<and> tolerated statusEnum (JDoc ''completed'') \<and>
   findById 1 (docs ex_store) = Some ex_milk \<and>
   put_todo ex_env (ObjectId 1) (empty_body\<lparr>body_status := JDoc ''completed''\<rparr>) ex_store =
     (Success 200 (ex_milk\<lparr>status := Some ''completed''\<rparr>),
      ex_store\<lparr>docs := [ex_milk\<lparr>status := Some ''completed''\<rparr>]\<rparr>)"
proof -
  have o: "outside statusEnum (JStr ''bogus'')" "\<not> tolerated statusEnum (JStr ''bogus'')"
    by (simp_all add: outside_def tolerated_def statusEnum_def image_iff)
  have d: "outside statusEnum (JDoc ''completed'')" "tolerated statusEnum (JDoc ''completed'')"
    by (simp_all add: outside_def tolerated_def statusEnum_def image_iff)
  have h: "findById 1 (docs ex_store) = Some ex_milk" "\<not> db_fault ex_env"
    by (simp_all add: findById_def ex_store_def ex_milk_def ex_env_def)
  have b: "(outside statusEnum (body_status (empty_body\<lparr>body_status := JStr ''bogus''\<rparr>)) \<and>
            \<not> tolerated statusEnum (body_status (empty_body\<lparr>body_status := JStr ''bogus''\<rparr>))) \<or>
     (outside priorityEnum (body_priority (empty_body\<lparr>body_status := JStr ''bogus''\<rparr>)) \<and>
      \<not> tolerated priorityEnum (body_priority (empty_body\<lparr>body_status := JStr ''bogus''\<rparr>))) \<or>
     (outside categoryEnum (body_category (empty_body\<lparr>body_status := JStr ''bogus''\<rparr>)) \<and>
      \<not> tolerated categoryEnum (body_category (empty_body\<lparr>body_status := JStr ''bogus''\<rparr>)))"
    using o by simp
  have 1: "put_todo ex_env (ObjectId 1) (empty_body\<lparr>body_status := JStr ''bogus''\<rparr>) ex_store =
     (Failure E500 ''Failed to update todo'', ex_store)"
    using put_invalid_enum_is_500 [of "empty_body\<lparr>body_status := JStr ''bogus''\<rparr>" ex_env 1 ex_store,
        THEN conjunct1, THEN mp, OF b]
    by simp
  have "put_todo ex_env (ObjectId 1) (empty_body\<lparr>body_status := JDoc ''completed''\<rparr>) ex_store =
     (Success 200 (ex_milk\<lparr>status := supplied_word (JDoc ''completed'')\<rparr>),
      ex_store\<lparr>docs := replaceById 1 (ex_milk\<lparr>status := supplied_word (JDoc ''completed'')\<rparr>)
        (docs ex_store)\<rparr>)"
    using put_invalid_enum_is_500 [of _ ex_env 1 ex_store ex_milk, THEN conjunct2, THEN mp,
        THEN conjunct1, rule_format, OF _ d(2)] h
    by simp
  then have 2: "put_todo ex_env (ObjectId 1) (empty_body\<lparr>body_status := JDoc ''completed''\<rparr>)
      ex_store =
     (Success 200 (ex_milk\<lparr>status := Some ''completed''\<rparr>),
      ex_store\<lparr>docs := [ex_milk\<lparr>status := Some ''completed''\<rparr>]\<rparr>)"
    by (simp add: supplied_word_def ex_store_def ex_milk_def)
  show ?thesis
    using o d h(1) 1 2 by simp
qed

lemma enumPath_orDefault:
  assumes "enumPath allowed d (orDefault v d) = Inr r"
    and "''true'' \<notin> set allowed \<and> ''false'' \<notin> set allowed"
  shows "r = (if truthy v then supplied_word v else Some d) \<and> r \<in> Some ` set allowed"
proof (cases "truthy v")
  case True
  then have "validateEnum allowed v = Inr r"
    using assms(1) by (auto simp: enumPath_def orDefault_def split: if_splits)
  from validateEnum_Inr [OF this assms(2)] True show ?thesis
    by (auto simp: supplied_word_def)
next
  case False
  then have "validateEnum allowed (JStr d) = Inr r"
    using assms(1) by (simp add: enumPath_def orDefault_def)
  from validateEnum_Inr [OF this assms(2)] False show ?thesis
    by auto
qed

lemma enumPath_orDefault_rejects:
  assumes "truthy v" and "outside allowed v" and "\<not> tolerated allowed v"
    and "''true'' \<notin> set allowed \<and> ''false'' \<notin> set allowed"
  shows "\<exists>f. enumPath allowed d (orDefault v d) = Inl f"
  using validateEnum_rejects [OF assms(2,3,4)] assms(1,2)
  by (auto simp: enumPath_def orDefault_def outside_def)

lemma save_Inr:
  assumes "save e n s = Inr (t, s')"
  shows "enumPath statusEnum ''todo'' (new_status n) = Inr (status t) \<and>
         enumPath priorityEnum ''medium'' (new_priority n) = Inr (priority t) \<and>
         enumPath categoryEnum ''general'' (new_category n) = Inr (category t) \<and>
         castDate (new_dueDate n) = Inr (dueDate t) \<and>
         title t = trim (new_title n) \<and> todo_id t = next_id s \<and> createdAt t = now e \<and>
         s' = s\<lparr>docs := docs s @ [t], next_id := Suc (next_id s)\<rparr> \<and> \<not> db_fault e"
  using assms
  by (auto simp: save_def titlePath_def Let_def split: sum.splits if_splits)

lemma post_Success:
  assumes "post_todos e b s = (Success c t, s')"
  shows "\<exists>x. body_title b = JStr x \<and> trim x \<noteq> [] \<and> c = 201 \<and>
             save e \<lparr>new_title = trim x,
                     new_status = orDefault (body_status b) ''todo'',
                     new_priority = orDefault (body_priority b) ''medium'',
                     new_category = orDefault (body_category b) ''general'',
                     new_dueDate = dueOrNull (body_dueDate b)\<rparr> s = Inr (t, s')"
  using assms
  by (auto simp: post_todos_def split: if_splits jsval.splits sum.splits)

lemma post_title_cases:
  "post_todos e b s = (Failure E400 ''Title is required'', s) \<or>
   post_todos e b s = (Failure E500 ''Failed to create todo'', s) \<or>
   (\<exists>x. body_title b = JStr x \<and> trim x \<noteq> [] \<and>
        post_todos e b s =
          (case save e \<lparr>new_title = trim x,
                     new_status = orDefault (body_status b) ''todo'',
                     new_priority = orDefault (body_priority b) ''medium'',
                     new_category = orDefault (body_category b) ''general'',
                     new_dueDate = dueOrNull (body_dueDate b)\<rparr> s of
             Inl f \<Rightarrow> (Failure E500 ''Failed to create todo'', s)
           | Inr (savedTodo, s') \<Rightarrow> (Success 201 savedTodo, s')))"
  by (cases "body_title b") (auto simp: post_todos_def)

text \<open>
  Claim C3, as stated, fails: a create request whose \<^verbatim>\<open>status\<close> is present and is the
  empty string is answered 201, and the task is stored with the status \<^verbatim>\<open>todo\<close>.
\<close>

theorem post_empty_status_counterexample:
  "post_todos ex_env (empty_body\<lparr>body_title := JStr ''Call mum'', body_status := JStr ''''\<rparr>)
     ex_store =
   (Success 201
      \<lparr>todo_id = 4, title = ''Call mum'', status = Some ''todo'', priority = Some ''medium'',
       category = Some ''general'', dueDate = None, createdAt = 7000\<rparr>,
    \<lparr>docs = [ex_milk,
             \<lparr>todo_id = 4, title = ''Call mum'', status = Some ''todo'',
              priority = Some ''medium'', category = Some ''general'', dueDate = None,
              createdAt = 7000\<rparr>],
     next_id = 5\<rparr>)"
  by (simp add: server_defs)

text \<open>
  Claim C3, amended. For every create request:
  \<^item> a status, priority or category value that is truthy and outside its enumerated set,
    other than an object whose \<^verbatim>\<open>_id\<close> is one of the listed strings, is rejected with an
    error (500, or 400 when the title is blank as well) and nothing is stored;
  \<^item> the handler writes \<^verbatim>\<open>value || default\<close>, so a value is replaced by its default
    (\<^verbatim>\<open>todo\<close>, \<^verbatim>\<open>medium\<close>, \<^verbatim>\<open>general\<close>) exactly when it is falsy: omitted, \<^verbatim>\<open>null\<close>, the
    empty string, 0 or \<^verbatim>\<open>false\<close>; a truthy value that is stored is the string supplied,
    or the \<^verbatim>\<open>_id\<close> of the object supplied;
  \<^item> every task that is stored carries enumerated values.
\<close>

theorem post_enum_values:
  "((truthy (body_status b) \<and> outside statusEnum (body_status b) \<and>
       \<not> tolerated statusEnum (body_status b)) \<or>
    (truthy (body_priority b) \<and> outside priorityEnum (body_priority b) \<and>
       \<not> tolerated priorityEnum (body_priority b)) \<or>
    (truthy (body_category b) \<and> outside categoryEnum (body_category b) \<and>
       \<not> tolerated categoryEnum (body_category b)) \<longrightarrow>
      post_todos e b s = (Failure E400 ''Title is required'', s) \<or>
      post_todos e b s = (Failure E500 ''Failed to create todo'', s)) \<and>
   (\<forall>c t s'. post_todos e b s = (Success c t, s') \<longrightarrow>
      status t = (if truthy (body_status b) then supplied_word (body_status b)
                  else Some ''todo'') \<and>
      status t \<in> Some ` set statusEnum \<and>
      priority t = (if truthy (body_priority b) then supplied_word (body_priority b)
                    else Some ''medium'') \<and>
      priority t \<in> Some ` set priorityEnum \<and>
      category t = (if truthy (body_category b) then supplied_word (body_category b)
                    else Some ''general'') \<and>
      category t \<in> Some ` set categoryEnum)"
proof (intro conjI impI allI)
  assume bad: "(truthy (body_status b) \<and> outside statusEnum (body_status b) \<and>
       \<not> tolerated statusEnum (body_status b)) \<or>
    (truthy (body_priority b) \<and> outside priorityEnum (body_priority b) \<and>
       \<not> tolerated priorityEnum (body_priority b)) \<or>
    (truthy (body_category b) \<and> outside categoryEnum (body_category b) \<and>
       \<not> tolerated categoryEnum (body_category b))"
  let ?n = "\<lambda>x. \<lparr>new_title = trim x,
                     new_status = orDefault (body_status b) ''todo'',
                     new_priority = orDefault (body_priority b) ''medium'',
                     new_category = orDefault (body_category b) ''general'',
                     new_dueDate = dueOrNull (body_dueDate b)\<rparr>"
  from bad consider
      (s) f where "enumPath statusEnum ''todo'' (orDefault (body_status b) ''todo'') = Inl f"
    | (p) f where "enumPath priorityEnum ''medium'' (orDefault (body_priority b) ''medium'') = Inl f"
    | (c) f where "enumPath categoryEnum ''general'' (orDefault (body_category b) ''general'') = Inl f"
    using enumPath_orDefault_rejects enums_no_boolean by blast
  then have "\<exists>f. save e (?n x) s = Inl f" for x
    by cases (auto simp: save_def Let_def split: sum.splits)
  then show "post_todos e b s = (Failure E400 ''Title is required'', s) \<or>
      post_todos e b s = (Failure E500 ''Failed to create todo'', s)"
    using post_title_cases [of e b s] by (auto split: sum.splits)
next
  fix c t s'
  assume ok: "post_todos e b s = (Success c t, s')"
  from post_Success [OF ok] obtain x where
    sv: "save e \<lparr>new_title = trim x,
                     new_status = orDefault (body_status b) ''todo'',
                     new_priority = orDefault (body_priority b) ''medium'',
                     new_category = orDefault (body_category b) ''general'',
                     new_dueDate = dueOrNull (body_dueDate b)\<rparr> s = Inr (t, s')"
    by blast
  from save_Inr [OF sv] have
    1: "enumPath statusEnum ''todo'' (orDefault (body_status b) ''todo'') = Inr (status t)" and
    2: "enumPath priorityEnum ''medium'' (orDefault (body_priority b) ''medium'') = Inr (priority t)" and
    3: "enumPath categoryEnum ''general'' (orDefault (body_category b) ''general'') = Inr (category t)"
    by simp_all
  show "status t = (if truthy (body_status b) then supplied_word (body_status b)
                    else Some ''todo'')"
    "status t \<in> Some ` set statusEnum"
    using enumPath_orDefault [OF 1 enums_no_boolean(1)] by blast+
  show "priority t = (if truthy (body_priority b) then supplied_word (body_priority b)
                      else Some ''medium'')"
    "priority t \<in> Some ` set priorityEnum"
    using enumPath_orDefault [OF 2 enums_no_boolean(2)] by blast+
  show "category t = (if truthy (body_category b) then supplied_word (body_category b)
                      else Some ''general'')"
    "category t \<in> Some ` set categoryEnum"
    using enumPath_orDefault [OF 3 enums_no_boolean(3)] by blast+
qed

theorem post_enum_values_witness:
  "truthy (JStr ''bogus'') \<and> outside statusEnum (JStr ''bogus'') \<and>
   \<not> tolerated statusEnum (JStr ''bogus'') \<and>
   post_todos ex_env (empty_body\<lparr>body_title := JStr ''Call mum'', body_status := JStr ''bogus''\<rparr>)
     ex_store = (Failure E500 ''Failed to create todo'', ex_store) \<and>
   post_todos ex_env (empty_body\<lparr>body_title := JStr ''Call mum'', body_status := JNull\<rparr>)
     ex_store =
   (Success 201
      \<lparr>todo_id = 4, title = ''Call mum'', status = Some ''todo'', priority = Some ''medium'',
       category = Some ''general'', dueDate = None, createdAt = 7000\<rparr>,
    \<lparr>docs = [ex_milk,
             \<lparr>todo_id = 4, title = ''Call mum'', status = Some ''todo'',
              priority = Some ''medium'', category = Some ''general'', dueDate = None,
              createdAt = 7000\<rparr>],
     next_id = 5\<rparr>) \<and>
   fst (post_todos ex_env
     (empty_body\<lparr>body_title := JStr ''Call mum'', body_status := JDoc ''completed''\<rparr>) ex_store) =
   Success 201
      \<lparr>todo_id = 4, title = ''Call mum'', status = Some ''completed'',
       priority = Some ''medium'', category = Some ''general'', dueDate = None,
       createdAt = 7000\<rparr>"
proof -
  let ?bogus = "empty_body\<lparr>body_title := JStr ''Call mum'', body_status := JStr ''bogus''\<rparr>"
  have o: "truthy (JStr ''bogus'')" "outside statusEnum (JStr ''bogus'')"
    "\<not> tolerated statusEnum (JStr ''bogus'')"
    by (simp_all add: outside_def tolerated_def statusEnum_def image_iff)
  then have b: "(truthy (body_status ?bogus) \<and> outside statusEnum (body_status ?bogus) \<and>
       \<not> tolerated statusEnum (body_status ?bogus)) \<or>
    (truthy (body_priority ?bogus) \<and> outside priorityEnum (body_priority ?bogus) \<and>
       \<not> tolerated priorityEnum (body_priority ?bogus)) \<or>
    (truthy (body_category ?bogus) \<and> outside categoryEnum (body_category ?bogus) \<and>
       \<not> tolerated categoryEnum (body_category ?bogus))"
    by simp
  have n4: "post_todos ex_env ?bogus ex_store \<noteq> (Failure E400 ''Title is required'', ex_store)"
    by (simp add: server_defs)
  from post_enum_values [of ?bogus ex_env ex_store, THEN conjunct1, THEN mp, OF b] n4
  have 1: "post_todos ex_env ?bogus ex_store = (Failure E500 ''Failed to create todo'', ex_store)"
    by blast
  have 2: "post_todos ex_env (empty_body\<lparr>body_title := JStr ''Call mum'', body_status := JNull\<rparr>)
     ex_store =
   (Success 201
      \<lparr>todo_id = 4, title = ''Call mum'', status = Some ''todo'', priority = Some ''medium'',
       category = Some ''general'', dueDate = None, createdAt = 7000\<rparr>,
    \<lparr>docs = [ex_milk,
             \<lparr>todo_id = 4, title = ''Call mum'', status = Some ''todo'',
              priority = Some ''medium'', category = Some ''general'', dueDate = None,
              createdAt = 7000\<rparr>],
     next_id = 5\<rparr>)"
    by (simp add: server_defs)
  have 3: "fst (post_todos ex_env
     (empty_body\<lparr>body_title := JStr ''Call mum'', body_status := JDoc ''completed''\<rparr>) ex_store) =
   Success 201
      \<lparr>todo_id = 4, title = ''Call mum'', status = Some ''completed'',
       priority = Some ''medium'', category = Some ''general'', dueDate = None,
       createdAt = 7000\<rparr>"
    by (simp add: server_defs)
  show ?thesis
    using o 1 2 3 by simp
qed

lemma updEnum_Inr:
  assumes "updEnum allowed v = Inr r"
    and "''true'' \<notin> set allowed \<and> ''false'' \<notin> set allowed"
  shows "(v = JUndefined \<longrightarrow> r = None) \<and> (v = JNull \<longrightarrow> r = Some None) \<and>
         (\<forall>x. v = JStr x \<longrightarrow> r = Some (Some x) \<and> x \<in> set allowed) \<and>
         (\<forall>x. v = JDoc x \<longrightarrow> r = Some (Some x) \<and> x \<in> set allowed)"
proof (cases "v = JUndefined")
  case True
  then show ?thesis using assms(1) by (simp add: updEnum_def)
next
  case False
  then obtain y where y: "validateEnum allowed v = Inr y" and r: "r = Some y"
    using assms(1) by (auto simp: updEnum_def split: sum.splits)
  from validateEnum_Inr [OF y assms(2)] False r show ?thesis
    by auto
qed

lemma updTitle_Inr:
  "updTitle v = Inr r \<Longrightarrow>
   (v = None \<longrightarrow> r = None) \<and> (\<forall>x. v = Some x \<longrightarrow> r = Some (trim x) \<and> trim x \<noteq> [])"
  by (auto simp: updTitle_def titlePath_def split: option.splits if_splits)

lemma updDate_Inr:
  "updDate d = Inr r \<Longrightarrow>
   (d = DueAbsent \<longrightarrow> r = None) \<and> (d = DueNull \<longrightarrow> r = Some None) \<and>
   (d = DueEmpty \<longrightarrow> r = Some None) \<and> (\<forall>x. d = DueDate x \<longrightarrow> r = Some (Some x))"
  by (auto simp: updDate_def castDate_def split: if_splits due_field.splits)

lemma validateUpdates_Inr:
  assumes "validateUpdates u = Inr p"
  shows "updTitle (upd_title u) = Inr (set_title p) \<and>
         updEnum statusEnum (upd_status u) = Inr (set_status p) \<and>
         updEnum priorityEnum (upd_priority u) = Inr (set_priority p) \<and>
         updEnum categoryEnum (upd_category u) = Inr (set_category p) \<and>
         updDate (upd_dueDate u) = Inr (set_dueDate p)"
  using assms by (auto simp: validateUpdates_def split: sum.splits)

lemma put_Success:
  assumes "put_todo e (ObjectId i) b s = (Success c t', s')"
  shows "\<exists>u p t. buildUpdates b = Some u \<and> validateUpdates u = Inr p \<and>
           findById i (docs s) = Some t \<and> t' = applyPatch p t \<and>
           s' = s\<lparr>docs := replaceById i t' (docs s)\<rparr> \<and> c = 200 \<and> \<not> db_fault e"
  using assms
  by (auto simp: put_todo_def findByIdAndUpdate_def
      split: option.splits sum.splits if_splits prod.splits)

lemma put_Failure:
  assumes "put_todo e p b s = (Failure ec m, s')"
  shows "s' = s"
  using assms
  by (auto simp: put_todo_def findByIdAndUpdate_def
      split: id_param.splits option.splits sum.splits if_splits prod.splits)

lemma put_empty_body:
  assumes "findById i (docs s) = Some t" and "\<not> db_fault e"
  shows "put_todo e (ObjectId i) empty_body s = (Success 200 t, s)"
proof -
  have "applyPatch \<lparr>set_title = None, set_status = None, set_priority = None,
          set_category = None, set_dueDate = None\<rparr> t = t"
    by (simp add: applyPatch_def)
  then show ?thesis
    using assms
    by (simp add: put_todo_def buildUpdates_def empty_body_def findByIdAndUpdate_def
        validateUpdates_def upd_absent replaceById_same)
qed

text \<open>
  Claim C4. For an existing task and any partial-update body: when the update succeeds,
  \<^verbatim>\<open>_id\<close> and \<^verbatim>\<open>createdAt\<close> are unchanged, every field absent from the body keeps its
  value, a field the body supplies takes the supplied value (the title trimmed; \<^verbatim>\<open>null\<close>
  for \<^verbatim>\<open>null\<close>; for an object, its \<^verbatim>\<open>_id\<close>), the updated task replaces the old one in the
  store and the other tasks are untouched; when the update fails, the store is
  unchanged. Updating with the empty body succeeds (if the store does not fail) and
  leaves the task and the store as they were.
\<close>

theorem put_changes_only_supplied_fields:
  assumes "findById i (docs s) = Some t"
  shows "(\<forall>c t' s'. put_todo e (ObjectId i) b s = (Success c t', s') \<longrightarrow>
            todo_id t' = todo_id t \<and> createdAt t' = createdAt t \<and>
            (body_title b = JUndefined \<longrightarrow> title t' = title t) \<and>
            (body_status b = JUndefined \<longrightarrow> status t' = status t) \<and>
            (body_priority b = JUndefined \<longrightarrow> priority t' = priority t) \<and>
            (body_category b = JUndefined \<longrightarrow> category t' = category t) \<and>
            (body_dueDate b = DueAbsent \<longrightarrow> dueDate t' = dueDate t) \<and>
            (\<forall>x. body_title b = JStr x \<longrightarrow> title t' = trim x) \<and>
            (\<forall>x. body_status b = JStr x \<longrightarrow> status t' = Some x) \<and>
            (\<forall>x. body_priority b = JStr x \<longrightarrow> priority t' = Some x) \<and>
            (\<forall>x. body_category b = JStr x \<longrightarrow> category t' = Some x) \<and>
            (\<forall>x. body_dueDate b = DueDate x \<longrightarrow> dueDate t' = Some x) \<and>
            (body_status b = JNull \<longrightarrow> status t' = None) \<and>
            (body_priority b = JNull \<longrightarrow> priority t' = None) \<and>
            (body_category b = JNull \<longrightarrow> category t' = None) \<and>
            (body_dueDate b = DueNull \<longrightarrow> dueDate t' = None) \<and>
            (\<forall>x. body_status b = JDoc x \<longrightarrow> status t' = Some x) \<and>
            (\<forall>x. body_priority b = JDoc x \<longrightarrow> priority t' = Some x) \<and>
            (\<forall>x. body_category b = JDoc x \<longrightarrow> category t' = Some x) \<and>
            docs s' = replaceById i t' (docs s) \<and> next_id s' = next_id s \<and>
            filter (\<lambda>u. todo_id u \<noteq> i) (docs s') = filter (\<lambda>u. todo_id u \<noteq> i) (docs s)) \<and>
         (\<forall>ec m s'. put_todo e (ObjectId i) b s = (Failure ec m, s') \<longrightarrow> s' = s) \<and>
         (\<not> db_fault e \<longrightarrow> put_todo e (ObjectId i) empty_body s = (Success 200 t, s))"
proof (intro conjI allI impI)
  fix ec m s'
  assume "put_todo e (ObjectId i) b s = (Failure ec m, s')"
  then show "s' = s" by (rule put_Failure)
next
  assume "\<not> db_fault e"
  then show "put_todo e (ObjectId i) empty_body s = (Success 200 t, s)"
    using assms by (simp add: put_empty_body)
next
  fix c t' s'
  assume ok: "put_todo e (ObjectId i) b s = (Success c t', s')"
  from put_Success [OF ok] assms obtain u p where
    bu: "buildUpdates b = Some u" and vu: "validateUpdates u = Inr p" and
    t': "t' = applyPatch p t" and s': "s' = s\<lparr>docs := replaceById i t' (docs s)\<rparr>"
    by auto
  note f = buildUpdates_fields [OF bu]
  note v = validateUpdates_Inr [OF vu]
  have ti: "updTitle (upd_title u) = Inr (set_title p)" using v by simp
  have st: "updEnum statusEnum (body_status b) = Inr (set_status p)" using v f by simp
  have pr: "updEnum priorityEnum (body_priority b) = Inr (set_priority p)" using v f by simp
  have ca: "updEnum categoryEnum (body_category b) = Inr (set_category p)" using v f by simp
  have du: "updDate (body_dueDate b) = Inr (set_dueDate p)" using v f by simp
  note est = updEnum_Inr [OF st enums_no_boolean(1)]
  note epr = updEnum_Inr [OF pr enums_no_boolean(2)]
  note eca = updEnum_Inr [OF ca enums_no_boolean(3)]
  show "todo_id t' = todo_id t" "createdAt t' = createdAt t"
    by (simp_all add: t' applyPatch_def)
  show "title t' = title t" if "body_title b = JUndefined"
    using that f updTitle_Inr [OF ti] by (simp add: t' applyPatch_def)
  show "status t' = status t" if "body_status b = JUndefined"
    using that est by (simp add: t' applyPatch_def)
  show "priority t' = priority t" if "body_priority b = JUndefined"
    using that epr by (simp add: t' applyPatch_def)
  show "category t' = category t" if "body_category b = JUndefined"
    using that eca by (simp add: t' applyPatch_def)
  show "dueDate t' = dueDate t" if "body_dueDate b = DueAbsent"
    using that updDate_Inr [OF du] by (simp add: t' applyPatch_def)
  show "title t' = trim x" if "body_title b = JStr x" for x
  proof -
    have "upd_title u = Some (trim x)" using that f by simp
    then have "set_title p = Some (trim (trim x))" using updTitle_Inr [OF ti] by simp
    moreover have "trim (trim x) = trim x" by (rule trim_trim)
    ultimately show ?thesis by (simp add: t' applyPatch_def)
  qed
  show "status t' = Some x" if "body_status b = JStr x" for x
    using that est by (simp add: t' applyPatch_def)
  show "priority t' = Some x" if "body_priority b = JStr x" for x
    using that epr by (simp add: t' applyPatch_def)
  show "category t' = Some x" if "body_category b = JStr x" for x
    using that eca by (simp add: t' applyPatch_def)
  show "dueDate t' = Some x" if "body_dueDate b = DueDate x" for x
    using that updDate_Inr [OF du] by (simp add: t' applyPatch_def)
  show "status t' = None" if "body_status b = JNull"
    using that est by (simp add: t' applyPatch_def)
  show "priority t' = None" if "body_priority b = JNull"
    using that epr by (simp add: t' applyPatch_def)
  show "category t' = None" if "body_category b = JNull"
    using that eca by (simp add: t' applyPatch_def)
  show "dueDate t' = None" if "body_dueDate b = DueNull"
    using that updDate_Inr [OF du] by (simp add: t' applyPatch_def)
  show "status t' = Some x" if "body_status b = JDoc x" for x
    using that est by (simp add: t' applyPatch_def)
  show "priority t' = Some x" if "body_priority b = JDoc x" for x
    using that epr by (simp add: t' applyPatch_def)
  show "category t' = Some x" if "body_category b = JDoc x" for x
    using that eca by (simp add: t' applyPatch_def)
  show "docs s' = replaceById i t' (docs s)" "next_id s' = next_id s"
    by (simp_all add: s')
  have "todo_id t' = i"
    using findById_Some [OF assms] by (simp add: t' applyPatch_def)
  then show "filter (\<lambda>u. todo_id u \<noteq> i) (docs s') = filter (\<lambda>u. todo_id u \<noteq> i) (docs s)"
    by (simp add: s' replaceById_others)
qed

theorem put_changes_only_supplied_fields_witness:
  "findById 1 (docs ex_store) = Some ex_milk \<and>
   put_todo ex_env (ObjectId 1) (empty_body\<lparr>body_status := JStr ''completed''\<rparr>) ex_store =
     (Success 200 (ex_milk\<lparr>status := Some ''completed''\<rparr>),
      ex_store\<lparr>docs := [ex_milk\<lparr>status := Some ''completed''\<rparr>]\<rparr>) \<and>
   put_todo ex_env (ObjectId 1) empty_body ex_store = (Success 200 ex_milk, ex_store)"
proof -
  have h: "findById 1 (docs ex_store) = Some ex_milk"
    by (simp add: findById_def ex_store_def ex_milk_def)
  have nf: "\<not> db_fault ex_env"
    by (simp add: ex_env_def)
  have e: "put_todo ex_env (ObjectId 1) empty_body ex_store = (Success 200 ex_milk, ex_store)"
    by (rule put_changes_only_supplied_fields [OF h, THEN conjunct2, THEN conjunct2, THEN mp, OF nf])
  have u: "put_todo ex_env (ObjectId 1) (empty_body\<lparr>body_status := JStr ''completed''\<rparr>) ex_store =
     (Success 200 (ex_milk\<lparr>status := Some ''completed''\<rparr>),
      ex_store\<lparr>docs := [ex_milk\<lparr>status := Some ''completed''\<rparr>]\<rparr>)"
    by (simp add: server_defs)
  show ?thesis
    by (intro conjI h e u)
qed

section \<open>The client mutations and undo (app.js)\<close>

lemmas client_defs = createTodo_def updateTodo_def deleteTodo_def clearAllTodos_def
  handleUndo_def handleDeleteTodo_def undoData_def jsonField_def request_def apiRequest_def
  fetch_def response_ok_def showToast_def showUndoSnackbar_def hideUndoSnackbar_def

lemma request_Inl:
  assumes "fst (apiRequest e h (server w)) = Inl err"
  shows "request e c h w =
         (Inl err, w\<lparr>server := snd (apiRequest e h (server w)), requests := requests w @ [c]\<rparr>)"
  using assms by (cases "apiRequest e h (server w)") (simp add: request_def)

lemma request_served:
  assumes "h (server w) = (Success k v, s')" and "network e = Delivered"
    and "200 \<le> k \<and> k \<le> 299"
  shows "request e c h w = (Inr v, w\<lparr>server := s', requests := requests w @ [c]\<rparr>)"
  using assms by (simp add: request_def apiRequest_def fetch_def response_ok_def)

lemma delete_ok:
  assumes "findById i (docs s) = Some u" and "\<not> db_fault e"
  shows "delete_todo e (ObjectId i) s = (Success 200 u, s\<lparr>docs := removeById i (docs s)\<rparr>)"
  using assms by (simp add: delete_todo_def findByIdAndDelete_def)

text \<open>The rendering returns when every cached task has a category.\<close>

lemma filtered_subset:
  assumes "filtered st = Some xs"
  shows "set xs \<subseteq> set (todos st)"
  using assms
  by (auto simp: filtered_def Let_def filter_throwing_eq split: if_splits)

lemma filtered_categories:
  assumes "\<forall>t\<in>set (todos st). category t \<noteq> None"
  shows "\<exists>xs. filtered st = Some xs"
proof -
  have n: "\<not> (\<exists>t\<in>set ys. searchCallback q t = None)" if "set ys \<subseteq> set (todos st)" for q ys
  proof
    assume "\<exists>t\<in>set ys. searchCallback q t = None"
    then obtain t where t: "t \<in> set ys" "searchCallback q t = None" by blast
    then have "category t = None"
      by (auto simp: searchCallback_def split: if_splits option.splits)
    moreover have "category t \<noteq> None" using assms that t(1) by blast
    ultimately show False by simp
  qed
  define byStatus where "byStatus =
    (if currentFilter st \<noteq> ''all''
     then filter (\<lambda>todo. status todo = Some (currentFilter st)) (todos st) else todos st)"
  have sub: "set byStatus \<subseteq> set (todos st)"
    by (auto simp: byStatus_def)
  have "filtered st =
        (if searchQuery st \<noteq> []
         then filter_throwing (searchCallback (searchQuery st)) byStatus else Some byStatus)"
    by (simp add: filtered_def byStatus_def Let_def)
  then show ?thesis
    using n [OF sub, of "searchQuery st"] by (auto simp: filter_throwing_eq)
qed

lemma renderTodos_categories:
  assumes "\<forall>t\<in>set (todos st). category t \<noteq> None"
  shows "renderTodos st"
proof -
  obtain xs where xs: "filtered st = Some xs"
    using filtered_categories [OF assms] by blast
  then have "\<forall>t\<in>set xs. category t \<noteq> None"
    using filtered_subset [OF xs] assms by blast
  then show ?thesis
    by (simp add: renderTodos_def xs list_all_iff)
qed

text \<open>The create request of an undo, for a slot that holds a well-formed task.\<close>

lemma validateEnum_member:
  assumes "v \<in> Some ` set allowed" and "[] \<notin> set allowed"
  shows "enumPath allowed d (orDefault (jsonField v) d) = Inr v"
proof -
  obtain x where x: "v = Some x" "x \<in> set allowed"
    using assms(1) by auto
  then have "x \<noteq> []" using assms(2) by auto
  then show ?thesis
    using x by (simp add: jsonField_def orDefault_def enumPath_def validateEnum_def)
qed

lemma castDate_undo:
  "castDate (dueOrNull (case d of None \<Rightarrow> DueNull | Some i \<Rightarrow> DueDate i)) = Inr d"
  by (cases d) (simp_all add: castDate_def dueOrNull_def)

lemma post_undo:
  assumes "well_formed t" and "\<not> db_fault e"
  shows "post_todos e (undoData t) s =
         (Success 201 (t\<lparr>todo_id := next_id s, createdAt := now e\<rparr>),
          s\<lparr>docs := docs s @ [t\<lparr>todo_id := next_id s, createdAt := now e\<rparr>],
            next_id := Suc (next_id s)\<rparr>)"
proof -
  have ti: "trim (title t) = title t" "title t \<noteq> []"
    using assms(1) by (simp_all add: well_formed_def)
  have st: "enumPath statusEnum ''todo'' (orDefault (jsonField (status t)) ''todo'') =
            Inr (status t)"
    using assms(1) by (intro validateEnum_member enums_nonempty) (simp add: well_formed_def)
  have pr: "enumPath priorityEnum ''medium'' (orDefault (jsonField (priority t)) ''medium'') =
            Inr (priority t)"
    using assms(1) by (intro validateEnum_member enums_nonempty) (simp add: well_formed_def)
  have ca: "enumPath categoryEnum ''general'' (orDefault (jsonField (category t)) ''general'') =
            Inr (category t)"
    using assms(1) by (intro validateEnum_member enums_nonempty) (simp add: well_formed_def)
  have new: "\<lparr>todo_id = next_id s, title = title t, status = status t, priority = priority t,
              category = category t, dueDate = dueDate t, createdAt = now e\<rparr> =
             t\<lparr>todo_id := next_id s, createdAt := now e\<rparr>"
    by (cases t) simp
  have "save e \<lparr>new_title = title t,
                new_status = orDefault (jsonField (status t)) ''todo'',
                new_priority = orDefault (jsonField (priority t)) ''medium'',
                new_category = orDefault (jsonField (category t)) ''general'',
                new_dueDate = dueOrNull (case dueDate t of None \<Rightarrow> DueNull | Some i \<Rightarrow> DueDate i)\<rparr> s =
        Inr (t\<lparr>todo_id := next_id s, createdAt := now e\<rparr>,
             s\<lparr>docs := docs s @ [t\<lparr>todo_id := next_id s, createdAt := now e\<rparr>],
               next_id := Suc (next_id s)\<rparr>)"
    using assms(2) by (simp add: save_def titlePath_def ti st pr ca castDate_undo new Let_def)
  then show ?thesis
    by (simp add: post_todos_def undoData_def ti)
qed

text \<open>
  A served delete of a cached task, and a served undo of a well-formed task: what they
  do whether the rendering that follows returns or throws.
\<close>

lemma handleDeleteTodo_served:
  assumes "findById i (todos (client w)) = Some t"
    and "findById i (docs (server w)) = Some u"
    and "\<not> db_fault e" and "network e = Delivered"
  shows "server (handleDeleteTodo e i w) = (server w)\<lparr>docs := removeById i (docs (server w))\<rparr>"
    and "requests (handleDeleteTodo e i w) = requests w @ [DELETE_todo i]"
    and "deletedTodo (client (handleDeleteTodo e i w)) = Some t"
    and "todos (client (handleDeleteTodo e i w)) = removeById i (todos (client w))"
    and "clearTimers (client (handleDeleteTodo e i w)) = clearTimers (client w)"
proof -
  have r: "request e (DELETE_todo i) (delete_todo e (ObjectId i)) w =
        (Inr u, w\<lparr>server := (server w)\<lparr>docs := removeById i (docs (server w))\<rparr>,
                  requests := requests w @ [DELETE_todo i]\<rparr>)"
    by (rule request_served [where k = 200]) (use assms delete_ok in simp_all)
  define st where "st = (client w)\<lparr>deletedTodo := Some t,
                                    todos := removeById i (todos (client w))\<rparr>"
  have d: "handleDeleteTodo e i w =
        (if renderTodos st
         then w\<lparr>server := (server w)\<lparr>docs := removeById i (docs (server w))\<rparr>,
                requests := requests w @ [DELETE_todo i],
                client := showUndoSnackbar ''Task deleted'' st\<rparr>
         else w\<lparr>server := (server w)\<lparr>docs := removeById i (docs (server w))\<rparr>,
                requests := requests w @ [DELETE_todo i],
                client := showToast ''Failed to delete task'' ''error'' st\<rparr>)"
    using assms(1) by (simp add: handleDeleteTodo_def deleteTodo_def r st_def Let_def)
  show "server (handleDeleteTodo e i w) = (server w)\<lparr>docs := removeById i (docs (server w))\<rparr>"
    and "requests (handleDeleteTodo e i w) = requests w @ [DELETE_todo i]"
    and "deletedTodo (client (handleDeleteTodo e i w)) = Some t"
    and "todos (client (handleDeleteTodo e i w)) = removeById i (todos (client w))"
    and "clearTimers (client (handleDeleteTodo e i w)) = clearTimers (client w)"
    by (simp_all add: d st_def showUndoSnackbar_def showToast_def)
qed

lemma createTodo_served:
  assumes "well_formed t" and "\<not> db_fault e" and "network e = Delivered"
  shows "createTodo e (undoData t) w =
         (let t' = t\<lparr>todo_id := next_id (server w), createdAt := now e\<rparr>;
              w' = w\<lparr>server := (server w)\<lparr>docs := docs (server w) @ [t'],
                                            next_id := Suc (next_id (server w))\<rparr>,
                     requests := requests w @ [POST_todos (undoData t)]\<rparr>;
              st = (client w)\<lparr>todos := t' # todos (client w)\<rparr>
          in if renderTodos st
             then (Returned, w'\<lparr>client := showToast ''Task added successfully!'' ''success'' st\<rparr>)
             else (Threw TypeError, w'\<lparr>client := showToast ''Failed to add task'' ''error'' st\<rparr>))"
proof -
  have "request e (POST_todos (undoData t)) (post_todos e (undoData t)) w =
        (Inr (t\<lparr>todo_id := next_id (server w), createdAt := now e\<rparr>),
         w\<lparr>server := (server w)\<lparr>docs := docs (server w) @
                        [t\<lparr>todo_id := next_id (server w), createdAt := now e\<rparr>],
                      next_id := Suc (next_id (server w))\<rparr>,
           requests := requests w @ [POST_todos (undoData t)]\<rparr>)"
    by (rule request_served [where k = 201]) (use assms post_undo in simp_all)
  then show ?thesis
    by (simp add: createTodo_def Let_def)
qed

lemma handleUndo_served:
  assumes "deletedTodo (client w) = Some t" and "well_formed t"
    and "\<not> db_fault e" and "network e = Delivered"
  shows "server (handleUndo e w) =
           (server w)\<lparr>docs := docs (server w) @
                         [t\<lparr>todo_id := next_id (server w), createdAt := now e\<rparr>],
                       next_id := Suc (next_id (server w))\<rparr>"
    and "requests (handleUndo e w) = requests w @ [POST_todos (undoData t)]"
    and "todos (client (handleUndo e w)) =
           t\<lparr>todo_id := next_id (server w), createdAt := now e\<rparr> # todos (client w)"
  using assms(1) createTodo_served [OF assms(2,3,4), of w]
  by (simp_all add: handleUndo_def Let_def showToast_def hideUndoSnackbar_def split: if_splits)

lemma ex_well_formed: "well_formed ex_milk" "well_formed ex_report"
  by (simp_all add: well_formed_def ex_milk_def ex_report_def trim_def isWhiteSpace_def
      statusEnum_def priorityEnum_def categoryEnum_def)

text \<open>
  Claim C9. For each of the four client mutations (create, update, delete, clear all):
  if its API request fails, whether the network lost it or the server answered with
  an error status, the function throws, the cache \<^verbatim>\<open>state.todos\<close> is as it was, and the
  only change of the client state is the error toast shown to the user.
\<close>

theorem failed_mutation_keeps_cache:
  "(fst (apiRequest e (post_todos e d) (server w)) = Inl err \<longrightarrow>
      fst (createTodo e d w) = Threw err \<and>
      todos (client (snd (createTodo e d w))) = todos (client w) \<and>
      client (snd (createTodo e d w)) = showToast ''Failed to add task'' ''error'' (client w)) \<and>
   (fst (apiRequest e (put_todo e (ObjectId i) d) (server w)) = Inl err \<longrightarrow>
      fst (updateTodo e i d w) = Threw err \<and>
      todos (client (snd (updateTodo e i d w))) = todos (client w) \<and>
      client (snd (updateTodo e i d w)) =
        showToast ''Failed to update task'' ''error'' (client w)) \<and>
   (fst (apiRequest e (delete_todo e (ObjectId i)) (server w)) = Inl err \<longrightarrow>
      fst (deleteTodo e i w) = Threw err \<and>
      todos (client (snd (deleteTodo e i w))) = todos (client w) \<and>
      client (snd (deleteTodo e i w)) =
        showToast ''Failed to delete task'' ''error'' (client w)) \<and>
   (fst (apiRequest e (delete_todos e) (server w)) = Inl err \<longrightarrow>
      fst (clearAllTodos e w) = Threw err \<and>
      todos (client (snd (clearAllTodos e w))) = todos (client w) \<and>
      client (snd (clearAllTodos e w)) =
        showToast ''Failed to clear tasks'' ''error'' (client w))"
  by (simp add: createTodo_def updateTodo_def deleteTodo_def clearAllTodos_def request_Inl
      showToast_def)

theorem failed_mutation_keeps_cache_witness:
  "fst (apiRequest (ex_env\<lparr>db_fault := True\<rparr>) (delete_todo (ex_env\<lparr>db_fault := True\<rparr>) (ObjectId 1))
     (server ex_world)) = Inl (HttpError 500) \<and>
   fst (deleteTodo (ex_env\<lparr>db_fault := True\<rparr>) 1 ex_world) = Threw (HttpError 500) \<and>
   todos (client (snd (deleteTodo (ex_env\<lparr>db_fault := True\<rparr>) 1 ex_world))) = [ex_report, ex_milk] \<and>
   toasts (client (snd (deleteTodo (ex_env\<lparr>db_fault := True\<rparr>) 1 ex_world))) =
     [(''Failed to delete task'', ''error'')]"
proof -
  have f: "fst (apiRequest (ex_env\<lparr>db_fault := True\<rparr>)
      (delete_todo (ex_env\<lparr>db_fault := True\<rparr>) (ObjectId 1)) (server ex_world)) = Inl (HttpError 500)"
    by (simp add: apiRequest_def fetch_def response_ok_def delete_todo_def findByIdAndDelete_def
        ex_env_def)
  have c: "todos (client ex_world) = [ex_report, ex_milk]" "toasts (client ex_world) = []"
    by (simp_all add: ex_world_def initial_state_def)
  from failed_mutation_keeps_cache [of "ex_env\<lparr>db_fault := True\<rparr>" _ ex_world "HttpError 500" 1,
      THEN conjunct2, THEN conjunct2, THEN conjunct1, THEN mp, OF f]
  show ?thesis using f c by (simp add: showToast_def)
qed

text \<open>
  Claim C10. When the undo slot \<^verbatim>\<open>state.deletedTodo\<close> is empty, \<^verbatim>\<open>handleUndo\<close> changes
  nothing: the cache, the server and the list of issued requests are as they were.
  After an undo whose \<^verbatim>\<open>createTodo\<close> returned the slot is empty and exactly one create
  request has been issued; a second undo then changes nothing.
\<close>

theorem undo_without_slot_is_noop:
  "(deletedTodo (client w) = None \<longrightarrow> handleUndo e w = w) \<and>
   (\<forall>d. deletedTodo (client w) = Some d \<and> fst (createTodo e (undoData d) w) = Returned \<longrightarrow>
      deletedTodo (client (handleUndo e w)) = None \<and>
      requests (handleUndo e w) = requests w @ [POST_todos (undoData d)] \<and>
      handleUndo e' (handleUndo e w) = handleUndo e w)"
proof (intro conjI allI impI)
  assume "deletedTodo (client w) = None"
  then show "handleUndo e w = w" by (simp add: handleUndo_def)
next
  fix d
  assume a: "deletedTodo (client w) = Some d \<and> fst (createTodo e (undoData d) w) = Returned"
  obtain w' where c: "createTodo e (undoData d) w = (Returned, w')"
    using a by (cases "createTodo e (undoData d) w") auto
  have u: "handleUndo e w =
      w'\<lparr>client := showToast ''Task restored!'' ''success''
            (hideUndoSnackbar ((client w')\<lparr>deletedTodo := None\<rparr>))\<rparr>"
    using a c by (simp add: handleUndo_def)
  show slot: "deletedTodo (client (handleUndo e w)) = None"
    by (simp add: u showToast_def hideUndoSnackbar_def)
  have "requests w' = requests w @ [POST_todos (undoData d)]"
    using c
    by (auto simp: createTodo_def request_def Let_def split: prod.splits sum.splits if_splits)
  then show "requests (handleUndo e w) = requests w @ [POST_todos (undoData d)]"
    by (simp add: u)
  show "handleUndo e' (handleUndo e w) = handleUndo e w"
    using slot by (simp add: handleUndo_def)
qed

lemma ex_world_renders:
  "renderTodos ((client ex_world)\<lparr>deletedTodo := Some ex_milk,
                                    todos := removeById 1 (todos (client ex_world))\<rparr>)"
  "renderTodos ((client (handleDeleteTodo ex_env 1 ex_world))
     \<lparr>todos := ex_milk\<lparr>todo_id := next_id (server (handleDeleteTodo ex_env 1 ex_world)),
                         createdAt := now ex_env\<rparr> #
               todos (client (handleDeleteTodo ex_env 1 ex_world))\<rparr>)"
proof -
  have 1: "findById 1 (todos (client ex_world)) = Some ex_milk"
    by (simp add: findById_def ex_world_def initial_state_def ex_milk_def ex_report_def)
  have 2: "findById 1 (docs (server ex_world)) = Some ex_milk"
    by (simp add: findById_def ex_world_def ex_milk_def)
  have 5: "\<not> db_fault ex_env" "network ex_env = Delivered"
    by (simp_all add: ex_env_def)
  have r: "removeById (Suc 0) (todos (client ex_world)) = [ex_report]"
    by (simp add: ex_world_def initial_state_def ex_milk_def ex_report_def)
  show "renderTodos ((client ex_world)\<lparr>deletedTodo := Some ex_milk,
                                    todos := removeById 1 (todos (client ex_world))\<rparr>)"
    by (rule renderTodos_categories) (simp add: r ex_report_def)
  show "renderTodos ((client (handleDeleteTodo ex_env 1 ex_world))
     \<lparr>todos := ex_milk\<lparr>todo_id := next_id (server (handleDeleteTodo ex_env 1 ex_world)),
                         createdAt := now ex_env\<rparr> #
               todos (client (handleDeleteTodo ex_env 1 ex_world))\<rparr>)"
    unfolding handleDeleteTodo_served(4) [OF 1 2 5]
    by (rule renderTodos_categories) (simp add: r ex_report_def ex_milk_def)
qed

theorem undo_without_slot_is_noop_witness:
  "deletedTodo (client ex_world) = None \<and> handleUndo ex_env ex_world = ex_world \<and>
   requests (handleUndo ex_env (handleUndo ex_env (handleDeleteTodo ex_env 1 ex_world))) =
     [DELETE_todo 1, POST_todos (undoData ex_milk)]"
proof -
  have n: "deletedTodo (client ex_world) = None"
    by (simp add: ex_world_def initial_state_def)
  have a: "handleUndo ex_env ex_world = ex_world"
    using undo_without_slot_is_noop [of ex_world ex_env, THEN conjunct1] n by simp
  have 1: "findById 1 (todos (client ex_world)) = Some ex_milk"
    by (simp add: findById_def ex_world_def initial_state_def ex_milk_def ex_report_def)
  have 2: "findById 1 (docs (server ex_world)) = Some ex_milk"
    by (simp add: findById_def ex_world_def ex_milk_def)
  have 5: "\<not> db_fault ex_env" "network ex_env = Delivered"
    by (simp_all add: ex_env_def)
  define w1 where "w1 = handleDeleteTodo ex_env 1 ex_world"
  have slot: "deletedTodo (client w1) = Some ex_milk"
    unfolding w1_def by (rule handleDeleteTodo_served(3) [OF 1 2 5])
  have rq: "requests w1 = [DELETE_todo 1]"
    unfolding w1_def handleDeleteTodo_served(2) [OF 1 2 5] by (simp add: ex_world_def)
  have ret: "fst (createTodo ex_env (undoData ex_milk) w1) = Returned"
    using createTodo_served [OF ex_well_formed(1) 5, of w1] ex_world_renders(2)
    by (simp add: Let_def w1_def)
  from undo_without_slot_is_noop [of w1 ex_env ex_env, THEN conjunct2, rule_format, of ex_milk]
    slot ret
  have "requests (handleUndo ex_env w1) = requests w1 @ [POST_todos (undoData ex_milk)]"
    and "handleUndo ex_env (handleUndo ex_env w1) = handleUndo ex_env w1"
    by simp_all
  then have "requests (handleUndo ex_env (handleUndo ex_env w1)) =
     [DELETE_todo 1, POST_todos (undoData ex_milk)]"
    by (simp add: rq)
  then show ?thesis
    using n a by (simp add: w1_def)
qed

subsection \<open>What the events between a delete and its undo preserve\<close>

lemma apiRequest_store: "snd (apiRequest e h s) = s \<or> snd (apiRequest e h s) = snd (h s)"
proof -
  obtain r s1 where hs: "h s = (r, s1)"
    by (cases "h s")
  show ?thesis
    by (cases "network e"; cases r) (simp_all add: apiRequest_def fetch_def hs)
qed

lemma set_replaceById: "set (replaceById i new ts) \<subseteq> insert new (set ts)"
  by (induction ts) auto

lemma set_removeById: "set (removeById i ts) \<subseteq> set ts"
  by (induction ts) auto

lemma post_Failure:
  assumes "post_todos e b s = (Failure ec m, s')"
  shows "s' = s"
  using assms
  by (auto simp: post_todos_def split: if_splits jsval.splits sum.splits prod.splits)

lemma post_ids:
  assumes "ids_issued s"
  shows "ids_issued (snd (post_todos e b s)) \<and> next_id s \<le> next_id (snd (post_todos e b s))"
proof (cases "post_todos e b s")
  case (Pair r s')
  show ?thesis
  proof (cases r)
    case (Failure ec m)
    then have "s' = s"
      using Pair post_Failure by blast
    then show ?thesis using assms Pair by simp
  next
    case (Success c t)
    from post_Success [OF Pair [unfolded Success]] obtain n where
      "save e n s = Inr (t, s')" by blast
    from save_Inr [OF this] have
      "todo_id t = next_id s" "s' = s\<lparr>docs := docs s @ [t], next_id := Suc (next_id s)\<rparr>"
      by simp_all
    then show ?thesis
      using assms Pair by (auto simp: ids_issued_def)
  qed
qed

lemma put_ids:
  assumes "ids_issued s"
  shows "ids_issued (snd (put_todo e (ObjectId i) b s)) \<and>
         next_id s \<le> next_id (snd (put_todo e (ObjectId i) b s))"
proof (cases "put_todo e (ObjectId i) b s")
  case (Pair r s')
  show ?thesis
  proof (cases r)
    case (Failure ec m)
    then have "s' = s" using Pair put_Failure by blast
    then show ?thesis using assms Pair by simp
  next
    case (Success c t')
    from put_Success [OF Pair [unfolded Success]] obtain p t where
      t: "findById i (docs s) = Some t" "t' = applyPatch p t"
      and s': "s' = s\<lparr>docs := replaceById i t' (docs s)\<rparr>"
      by blast
    have "t \<in> set (docs s)" using findById_Some [OF t(1)] by simp
    then have "todo_id t' < next_id s"
      using assms t(2) by (simp add: ids_issued_def applyPatch_def)
    then have "ids_issued s'"
      using assms set_replaceById [of i t' "docs s"] by (auto simp: s' ids_issued_def)
    then show ?thesis using Pair s' by simp
  qed
qed

lemma delete_todos_ids:
  assumes "ids_issued s"
  shows "ids_issued (snd (delete_todos e s)) \<and> next_id s \<le> next_id (snd (delete_todos e s))"
  using assms by (auto simp: delete_todos_def deleteMany_def ids_issued_def)

lemma apiRequest_ids:
  assumes "ids_issued s" and "ids_issued (snd (h s)) \<and> next_id s \<le> next_id (snd (h s))"
  shows "ids_issued (snd (apiRequest e h s)) \<and> next_id s \<le> next_id (snd (apiRequest e h s))"
  using apiRequest_store [of e h s] assms by auto

lemma createTodo_frame:
  "server (snd (createTodo e b w)) = snd (apiRequest e (post_todos e b) (server w)) \<and>
   deletedTodo (client (snd (createTodo e b w))) = deletedTodo (client w) \<and>
   clearTimers (client (snd (createTodo e b w))) = clearTimers (client w)"
  by (cases "apiRequest e (post_todos e b) (server w)")
     (auto simp: createTodo_def request_def showToast_def Let_def split: sum.splits)

lemma updateTodo_frame:
  "server (snd (updateTodo e i b w)) = snd (apiRequest e (put_todo e (ObjectId i) b) (server w)) \<and>
   deletedTodo (client (snd (updateTodo e i b w))) = deletedTodo (client w) \<and>
   clearTimers (client (snd (updateTodo e i b w))) = clearTimers (client w)"
  by (cases "apiRequest e (put_todo e (ObjectId i) b) (server w)")
     (auto simp: updateTodo_def request_def showToast_def Let_def split: sum.splits)

lemma clearAllTodos_frame:
  "server (snd (clearAllTodos e w)) = snd (apiRequest e (delete_todos e) (server w)) \<and>
   deletedTodo (client (snd (clearAllTodos e w))) = deletedTodo (client w) \<and>
   clearTimers (client (snd (clearAllTodos e w))) = clearTimers (client w)"
  by (cases "apiRequest e (delete_todos e) (server w)")
     (auto simp: clearAllTodos_def request_def showToast_def Let_def split: sum.splits)

lemma step_preserves:
  assumes "ids_issued (server w)" and "clearTimers (client w) = 0"
  shows "ids_issued (server (step ev w)) \<and> next_id (server w) \<le> next_id (server (step ev w)) \<and>
         clearTimers (client (step ev w)) = 0 \<and>
         deletedTodo (client (step ev w)) = deletedTodo (client w)"
proof (cases ev)
  case (AddTodo e b)
  then show ?thesis
    using assms createTodo_frame [of e b w]
      apiRequest_ids [where h = "post_todos e b" and s = "server w" and e = e,
        OF assms(1) post_ids [OF assms(1), of e b]]
    by simp
next
  case (UpdateTodo e i b)
  then show ?thesis
    using assms updateTodo_frame [of e i b w]
      apiRequest_ids [where h = "put_todo e (ObjectId i) b" and s = "server w" and e = e,
        OF assms(1) put_ids [OF assms(1), of e i b]]
    by simp
next
  case (ClearAll e)
  then show ?thesis
    using assms clearAllTodos_frame [of e w]
      apiRequest_ids [where h = "delete_todos e" and s = "server w" and e = e,
        OF assms(1) delete_todos_ids [OF assms(1), of e]]
    by simp
next
  case (FilterChange f)
  then show ?thesis using assms by (simp add: handleFilterChange_def)
next
  case (Search q)
  then show ?thesis using assms by (simp add: handleSearch_def)
next
  case (Sort k)
  then show ?thesis using assms by (simp add: handleSort_def)
next
  case ClearTimer
  then show ?thesis using assms by (simp add: clearTimerFires_def)
qed

lemma run_preserves:
  assumes "ids_issued (server w)" and "clearTimers (client w) = 0"
  shows "ids_issued (server (run evs w)) \<and> next_id (server w) \<le> next_id (server (run evs w)) \<and>
         clearTimers (client (run evs w)) = 0 \<and>
         deletedTodo (client (run evs w)) = deletedTodo (client w)"
proof (induction evs rule: rev_induct)
  case Nil
  then show ?case using assms by (simp add: run_def)
next
  case (snoc ev evs)
  have "run (evs @ [ev]) w = step ev (run evs w)"
    by (simp add: run_def)
  then show ?case
    using snoc step_preserves [of "run evs w" ev] by auto
qed

lemma handleDeleteTodo_ids:
  assumes "findById i (todos (client w)) = Some t"
    and "findById i (docs (server w)) = Some u"
    and "\<not> db_fault e" and "network e = Delivered" and "ids_issued (server w)"
  shows "ids_issued (server (handleDeleteTodo e i w)) \<and>
         next_id (server (handleDeleteTodo e i w)) = next_id (server w) \<and> i < next_id (server w)"
proof -
  have "u \<in> set (docs (server w))" "todo_id u = i"
    using findById_Some [OF assms(2)] by simp_all
  then have "i < next_id (server w)"
    using assms(5) by (auto simp: ids_issued_def)
  then show ?thesis
    using assms(5) set_removeById [of i "docs (server w)"]
    by (auto simp: handleDeleteTodo_served(1) [OF assms(1-4)] ids_issued_def)
qed

subsection \<open>Delete, then undo\<close>

lemmas eval_defs = client_defs server_defs renderTodos_def filtered_def ex_world_def
  ex_report_def initial_state_def clearTimerFires_def

text \<open>
  Claim C7 fails in the program in two ways.
  \<^item> A callback of \<^verbatim>\<open>hideUndoSnackbar\<close> that is still pending empties the slot of a later
    delete. Here the task \<^verbatim>\<open>Write report\<close> is deleted and restored by undo, which
    schedules the callback; \<^verbatim>\<open>Buy milk\<close> is deleted at once; the callback runs; the
    snackbar is still shown, and the undo creates nothing.
  \<^item> A task whose status an update has set to \<^verbatim>\<open>null\<close> is created again with the
    status \<^verbatim>\<open>todo\<close>.
\<close>

theorem undo_after_pending_clear_counterexample:
  "clearTimers (client (handleUndo ex_env (handleDeleteTodo ex_env 2 ex_world))) = 1 \<and>
   deletedTodo (client (handleDeleteTodo ex_env 1
     (handleUndo ex_env (handleDeleteTodo ex_env 2 ex_world)))) = Some ex_milk \<and>
   snackbar (client (step ClearTimer (handleDeleteTodo ex_env 1
     (handleUndo ex_env (handleDeleteTodo ex_env 2 ex_world))))) \<and>
   deletedTodo (client (step ClearTimer (handleDeleteTodo ex_env 1
     (handleUndo ex_env (handleDeleteTodo ex_env 2 ex_world))))) = None \<and>
   handleUndo ex_env (step ClearTimer (handleDeleteTodo ex_env 1
     (handleUndo ex_env (handleDeleteTodo ex_env 2 ex_world)))) =
   step ClearTimer (handleDeleteTodo ex_env 1
     (handleUndo ex_env (handleDeleteTodo ex_env 2 ex_world))) \<and>
   requests (handleUndo ex_env (step ClearTimer (handleDeleteTodo ex_env 1
     (handleUndo ex_env (handleDeleteTodo ex_env 2 ex_world))))) =
     [DELETE_todo 2, POST_todos (undoData ex_report), DELETE_todo 1] \<and>
   docs (server (handleUndo ex_env (step ClearTimer (handleDeleteTodo ex_env 1
     (handleUndo ex_env (handleDeleteTodo ex_env 2 ex_world)))))) =
     [ex_report\<lparr>todo_id := 4, createdAt := 7000\<rparr>] \<and>
   docs (server (handleUndo ex_env (handleDeleteTodo ex_env 1
     \<lparr>client = initial_state\<lparr>todos := [ex_milk\<lparr>status := None\<rparr>]\<rparr>,
      server = \<lparr>docs = [ex_milk\<lparr>status := None\<rparr>], next_id = 4\<rparr>, requests = []\<rparr>))) =
     [ex_milk\<lparr>todo_id := 4, status := Some ''todo'', createdAt := 7000\<rparr>]"
  by (simp add: eval_defs)

text \<open>
  Claim C7, what holds. Let a task of the cache be well formed (a trimmed, non-empty
  title and enumerated values) and still held by the store, let every stored
  identifier have been handed out by the store, and let no callback of
  \<^verbatim>\<open>hideUndoSnackbar\<close> be pending. The task is deleted, any events other than a delete,
  an undo and the expiry of the snackbar follow, and undo is invoked; the delete and
  the create request of the undo are served. Then the slot still holds the task when
  undo is invoked, the undo issues one create request, and the store and the cache
  receive a task with the same title, status, priority, category and due date, whose
  identifier differs from the deleted task's and from every stored one.
\<close>

theorem delete_then_undo:
  assumes "findById i (todos (client w)) = Some t"
    and "findById i (docs (server w)) \<noteq> None"
    and "ids_issued (server w)"
    and "well_formed t"
    and "clearTimers (client w) = 0"
    and "\<not> db_fault e1 \<and> network e1 = Delivered"
    and "\<not> db_fault e2 \<and> network e2 = Delivered"
  shows "let w1 = run evs (handleDeleteTodo e1 i w);
             w2 = handleUndo e2 w1;
             t' = t\<lparr>todo_id := next_id (server w1), createdAt := now e2\<rparr>
         in deletedTodo (client w1) = Some t \<and>
            requests w2 = requests w1 @ [POST_todos (undoData t)] \<and>
            docs (server w2) = docs (server w1) @ [t'] \<and>
            todos (client w2) = t' # todos (client w1) \<and>
            title t' = title t \<and> status t' = status t \<and> priority t' = priority t \<and>
            category t' = category t \<and> dueDate t' = dueDate t \<and>
            todo_id t' \<noteq> todo_id t \<and>
            (\<forall>u\<in>set (docs (server w1)). todo_id u \<noteq> todo_id t')"
proof -
  obtain u where u: "findById i (docs (server w)) = Some u"
    using assms(2) by auto
  have e1: "\<not> db_fault e1" "network e1 = Delivered" and e2: "\<not> db_fault e2" "network e2 = Delivered"
    using assms(6,7) by simp_all
  define w0 where "w0 = handleDeleteTodo e1 i w"
  define w1 where "w1 = run evs w0"
  have slot0: "deletedTodo (client w0) = Some t" and timers0: "clearTimers (client w0) = 0"
    unfolding w0_def
    using handleDeleteTodo_served(3,5) [OF assms(1) u e1] assms(5) by simp_all
  have ids0: "ids_issued (server w0)" and next0: "i < next_id (server w0)"
    unfolding w0_def
    using handleDeleteTodo_ids [OF assms(1) u e1 assms(3)] by simp_all
  note inv = run_preserves [OF ids0 timers0, of evs, folded w1_def]
  have slot1: "deletedTodo (client w1) = Some t"
    using inv slot0 by simp
  have ids1: "ids_issued (server w1)" and next1: "i < next_id (server w1)"
    using inv next0 by simp_all
  have "todo_id t = i"
    using findById_Some [OF assms(1)] by simp
  then have fresh: "next_id (server w1) \<noteq> todo_id t"
    using next1 by simp
  have stored: "\<forall>u\<in>set (docs (server w1)). todo_id u \<noteq> next_id (server w1)"
    using ids1 by (auto simp: ids_issued_def)
  note undo = handleUndo_served [OF slot1 assms(4) e2]
  show ?thesis
    unfolding Let_def w0_def [symmetric] w1_def [symmetric]
    using slot1 undo fresh stored by simp
qed

theorem delete_then_undo_witness:
  "findById 1 (todos (client ex_world)) = Some ex_milk \<and>
   findById 1 (docs (server ex_world)) \<noteq> None \<and>
   ids_issued (server ex_world) \<and> well_formed ex_milk \<and> clearTimers (client ex_world) = 0 \<and>
   docs (server (handleUndo ex_env (run [Search ''report'', ClearTimer]
     (handleDeleteTodo ex_env 1 ex_world)))) =
     [ex_report, ex_milk\<lparr>todo_id := 4, createdAt := 7000\<rparr>] \<and>
   todos (client (handleUndo ex_env (run [Search ''report'', ClearTimer]
     (handleDeleteTodo ex_env 1 ex_world)))) =
     [ex_milk\<lparr>todo_id := 4, createdAt := 7000\<rparr>, ex_report] \<and>
   todo_id (ex_milk\<lparr>todo_id := 4, createdAt := 7000\<rparr>) \<noteq> todo_id ex_milk"
proof -
  have 1: "findById 1 (todos (client ex_world)) = Some ex_milk"
    by (simp add: findById_def ex_world_def initial_state_def ex_milk_def ex_report_def)
  have 2: "findById 1 (docs (server ex_world)) \<noteq> None"
    by (simp add: findById_def ex_world_def ex_milk_def)
  have 3: "ids_issued (server ex_world)"
    by (simp add: ids_issued_def ex_world_def ex_milk_def ex_report_def)
  have 4: "clearTimers (client ex_world) = 0"
    by (simp add: ex_world_def initial_state_def)
  have 5: "\<not> db_fault ex_env \<and> network ex_env = Delivered"
    by (simp add: ex_env_def)
  define w1 where "w1 = run [Search ''report'', ClearTimer] (handleDeleteTodo ex_env 1 ex_world)"
  have s: "docs (server w1) = [ex_report]" "todos (client w1) = [ex_report]"
    "next_id (server w1) = 4"
    unfolding w1_def by (simp_all add: run_def eval_defs handleSearch_def)
  from delete_then_undo [OF 1 2 3 ex_well_formed(1) 4 5 5, of "[Search ''report'', ClearTimer]",
      unfolded Let_def, folded w1_def]
  have "docs (server (handleUndo ex_env w1)) =
          docs (server w1) @ [ex_milk\<lparr>todo_id := next_id (server w1), createdAt := now ex_env\<rparr>]"
    and "todos (client (handleUndo ex_env w1)) =
          ex_milk\<lparr>todo_id := next_id (server w1), createdAt := now ex_env\<rparr> # todos (client w1)"
    by simp_all
  then have "docs (server (handleUndo ex_env w1)) =
               [ex_report, ex_milk\<lparr>todo_id := 4, createdAt := 7000\<rparr>]"
    and "todos (client (handleUndo ex_env w1)) =
               [ex_milk\<lparr>todo_id := 4, createdAt := 7000\<rparr>, ex_report]"
    by (simp_all add: s ex_env_def)
  then show ?thesis
    using 1 2 3 4 ex_well_formed(1) by (simp add: w1_def ex_milk_def)
qed

end
